theory Spec2Isabelle
  imports Complex_Main "HOL-Library.Word" "HOL-Library.Log_Nat"
begin

section \<open>Line counting and line diffs (manual\_commit\_attribution.go)\<close>

text \<open>
  Go strings are byte sequences; they are modelled as \<open>string\<close> (a list of 8-bit
  characters). Go's \<open>int\<close> is modelled as \<open>int\<close>: every count below is bounded by the
  length of a string held in memory, far below \<open>2 ^ 63\<close>.
\<close>

definition newline :: char where
  "newline = CHR 0x0A"

text \<open>\<open>strings.Count(s, "\n")\<close>: the number of newline bytes of \<open>s\<close>.\<close>

definition Count_newline :: "string \<Rightarrow> int" where
  "Count_newline s = int (length (filter (\<lambda>c. c = newline) s))"

text \<open>\<open>strings.HasSuffix(s, suffix)\<close>:
  \<open>len(s) >= len(suffix) && s[len(s)-len(suffix):] == suffix\<close>.\<close>

definition HasSuffix :: "string \<Rightarrow> string \<Rightarrow> bool" where
  "HasSuffix s suf = (length suf \<le> length s \<and> drop (length s - length suf) s = suf)"

definition countLinesStr :: "string \<Rightarrow> int" where
  "countLinesStr content =
     (if content = [] then 0
      else (let lines = Count_newline content
            in if \<not> HasSuffix content [newline] then lines + 1 else lines))"

definition countLinesInText :: "string \<Rightarrow> int" where
  "countLinesInText text =
     (if text = [] then 0
      else (let lines = Count_newline text
            in if \<not> HasSuffix text [newline] \<and> length text > 0 then lines + 1 else lines))"

text \<open>
  The diff library (\<open>github.com/sergi/go-diff/diffmatchpatch\<close>) is not part of the
  repository. Its result type is modelled, and the composition
  \<open>DiffLinesToChars\<close>; \<open>DiffMain\<close>; \<open>DiffCharsToLines\<close> that \<open>diffLines\<close> calls is a
  parameter \<open>dmp\<close> of every function that reaches it.
\<close>

datatype Operation = DiffDelete | DiffInsert | DiffEqual

record Diff =
  Type :: Operation
  Text :: string

type_synonym line_differ = "string \<Rightarrow> string \<Rightarrow> Diff list"

text \<open>The body of the \<open>for _, d := range diffs\<close> loop of \<open>diffLines\<close>, on the
  named results \<open>(unchanged, added, removed)\<close>.\<close>

fun diffLines_step :: "Diff \<Rightarrow> int \<times> int \<times> int \<Rightarrow> int \<times> int \<times> int" where
  "diffLines_step d (unchanged, added, removed) =
     (let lines = countLinesInText (Text d)
      in case Type d of
           DiffEqual \<Rightarrow> (unchanged + lines, added, removed)
         | DiffInsert \<Rightarrow> (unchanged, added + lines, removed)
         | DiffDelete \<Rightarrow> (unchanged, added, removed + lines))"

fun diffLines_loop :: "Diff list \<Rightarrow> int \<times> int \<times> int \<Rightarrow> int \<times> int \<times> int" where
  "diffLines_loop [] acc = acc"
| "diffLines_loop (d # ds) acc = diffLines_loop ds (diffLines_step d acc)"

definition diffLines :: "line_differ \<Rightarrow> string \<Rightarrow> string \<Rightarrow> int \<times> int \<times> int" where
  "diffLines dmp checkpointContent committedContent =
     (if checkpointContent = committedContent then (countLinesStr committedContent, 0, 0)
      else if checkpointContent = [] then (0, countLinesStr committedContent, 0)
      else if committedContent = [] then (0, 0, countLinesStr checkpointContent)
      else diffLines_loop (dmp checkpointContent committedContent) (0, 0, 0))"

section \<open>Reading a file from a tree\<close>

text \<open>
  A \<open>*object.Tree\<close> is a pointer: \<open>None\<close> is \<open>nil\<close>. Looking a path up either
  fails (\<open>tree.File\<close> returns an error), or finds a file whose \<open>Contents()\<close> fails,
  or finds a file with contents.
\<close>

datatype FileEntry = NoFile | Unreadable | Blob string

type_synonym Tree = "string \<Rightarrow> FileEntry"

definition getFileContent :: "Tree option \<Rightarrow> string \<Rightarrow> string" where
  "getFileContent tree path =
     (case tree of
        None \<Rightarrow> []
      | Some t \<Rightarrow>
          (case t path of
             NoFile \<Rightarrow> []
           | Unreadable \<Rightarrow> []
           | Blob content \<Rightarrow> if CHR 0x00 \<in> set content then [] else content))"

text \<open>A path is absent from a tree when the tree is nil or has no file at the path.\<close>

definition absent :: "Tree option \<Rightarrow> string \<Rightarrow> bool" where
  "absent tree path = (case tree of None \<Rightarrow> True | Some t \<Rightarrow> t path = NoFile)"

section \<open>Double-precision arithmetic\<close>

text \<open>
  \<open>AgentPercentage\<close> is computed in \<open>float64\<close>. A \<open>float64\<close> value is modelled as the real
  number it denotes, and every operation as the exact operation followed by rounding to
  the nearest number with a 53-bit significand, ties to the even significand (the
  default rounding of IEEE 754 arithmetic, which Go uses). The exponent range is not
  bounded: the values reached below are conversions of integers, a quotient between
  \<open>2 ^ -64\<close> and 1 and a product below 100, all far inside the range of normal numbers,
  where no overflow or gradual underflow occurs.
\<close>

text \<open>Rounding a real number to the nearest integer, ties to even.\<close>

definition roundHalfEven :: "real \<Rightarrow> int" where
  "roundHalfEven x =
     (let f = \<lfloor>x\<rfloor>; d = x - of_int f
      in if d < 1 / 2 then f else if d > 1 / 2 then f + 1 else if even f then f else f + 1)"

text \<open>The binary exponent of a positive number \<open>x\<close>: the \<open>e\<close> with
  \<open>2 ^ e \<le> x < 2 ^ (e + 1)\<close>, found from the bit length of the integer part of \<open>x\<close>, or
  of \<open>1 / x\<close> when \<open>x < 1\<close>.\<close>

definition exponent2 :: "real \<Rightarrow> int" where
  "exponent2 x =
     (if 1 \<le> x then bitlen \<lfloor>x\<rfloor> - 1
      else (let k = bitlen \<lfloor>1 / x\<rfloor> - 1
            in if x * 2 powi k = 1 then - k else - k - 1))"

text \<open>Rounding to a 53-bit significand: the significand is the number divided by the
  unit in the last place \<open>2 ^ (e - 52)\<close>, rounded to an integer.\<close>

definition round64 :: "real \<Rightarrow> real" where
  "round64 x =
     (if x = 0 then 0
      else (let e = exponent2 \<bar>x\<bar>; u = 2 powi (e - 52)
            in sgn x * (of_int (roundHalfEven (\<bar>x\<bar> / u)) * u)))"

text \<open>The conversion \<open>float64(n)\<close> of an \<open>int\<close>, and the \<open>float64\<close> operators \<open>/\<close> and
  \<open>*\<close>.\<close>

definition float64 :: "int \<Rightarrow> real" where
  "float64 n = round64 (of_int n)"

definition fdiv :: "real \<Rightarrow> real \<Rightarrow> real" where
  "fdiv x y = round64 (x / y)"

definition fmul :: "real \<Rightarrow> real \<Rightarrow> real" where
  "fmul x y = round64 (x * y)"

section \<open>Per-commit attribution\<close>

text \<open>
  \<open>AgentPercentage\<close> is a \<open>float64\<close>: the real number the double denotes, computed with
  the rounded operations above. \<open>CalculatedAt\<close> is \<open>time.Now()\<close>; the clock reading is a
  parameter.
\<close>

record InitialAttribution =
  CalculatedAt :: nat
  AgentLines :: int
  HumanAdded :: int
  HumanModified :: int
  HumanRemoved :: int
  TotalCommitted :: int
  AgentPercentage :: real

text \<open>The five running totals of the loop over \<open>filesTouched\<close>.\<close>

record Totals =
  totalAgentAdded :: int
  totalHumanAdded :: int
  totalHumanModified :: int
  totalHumanRemoved :: int
  totalCommitAdded :: int

definition zeroTotals :: Totals where
  "zeroTotals = \<lparr>totalAgentAdded = 0, totalHumanAdded = 0, totalHumanModified = 0,
                 totalHumanRemoved = 0, totalCommitAdded = 0\<rparr>"

text \<open>One iteration of the loop body, for \<open>filePath\<close>.\<close>

definition attributeFile ::
  "line_differ \<Rightarrow> Tree option \<Rightarrow> Tree option \<Rightarrow> Tree option \<Rightarrow> string \<Rightarrow> Totals \<Rightarrow> Totals" where
  "attributeFile dmp baseTree checkpointTree committedTree filePath tot =
     (let baseContent = getFileContent baseTree filePath;
          checkpointContent = getFileContent checkpointTree filePath;
          committedContent = getFileContent committedTree filePath
      in if baseContent = committedContent then tot
         else
           (let (u1, commitAdded, commitRemoved) = diffLines dmp baseContent committedContent;
                (u2, humanAdded, humanRemoved) = diffLines dmp checkpointContent committedContent;
                agentAdded = commitAdded - humanAdded;
                agentAdded = (if agentAdded < 0 then 0 else agentAdded);
                humanModified = min humanAdded humanRemoved;
                pureHumanAdded = humanAdded - humanModified;
                pureHumanRemoved = humanRemoved - humanModified;
                agentRemovedFromBase = countLinesStr baseContent - countLinesStr checkpointContent;
                agentRemovedFromBase = (if agentRemovedFromBase < 0 then 0 else agentRemovedFromBase);
                actualHumanRemoved = commitRemoved - agentRemovedFromBase;
                actualHumanRemoved = (if actualHumanRemoved < 0 then 0 else actualHumanRemoved);
                actualHumanRemoved =
                  (if actualHumanRemoved > pureHumanRemoved then pureHumanRemoved
                   else actualHumanRemoved)
            in \<lparr>totalAgentAdded = totalAgentAdded tot + agentAdded,
                totalHumanAdded = totalHumanAdded tot + pureHumanAdded,
                totalHumanModified = totalHumanModified tot + humanModified,
                totalHumanRemoved = totalHumanRemoved tot + actualHumanRemoved,
                totalCommitAdded = totalCommitAdded tot + commitAdded\<rparr>))"

fun attributeFiles ::
  "line_differ \<Rightarrow> Tree option \<Rightarrow> Tree option \<Rightarrow> Tree option \<Rightarrow> string list \<Rightarrow> Totals \<Rightarrow> Totals" where
  "attributeFiles dmp baseTree checkpointTree committedTree [] tot = tot"
| "attributeFiles dmp baseTree checkpointTree committedTree (filePath # rest) tot =
     attributeFiles dmp baseTree checkpointTree committedTree rest
       (attributeFile dmp baseTree checkpointTree committedTree filePath tot)"

definition CalculateAttribution ::
  "line_differ \<Rightarrow> nat \<Rightarrow> Tree option \<Rightarrow> Tree option \<Rightarrow> Tree option \<Rightarrow> string list
     \<Rightarrow> InitialAttribution option" where
  "CalculateAttribution dmp now baseTree checkpointTree committedTree filesTouched =
     (if length filesTouched = 0 then None
      else
        (let tot = attributeFiles dmp baseTree checkpointTree committedTree filesTouched zeroTotals;
             totalInCommit = totalCommitAdded tot;
             totalInCommit = (if totalInCommit = 0 then totalAgentAdded tot else totalInCommit);
             agentPercentage =
               (if totalInCommit > 0
                then fmul (fdiv (float64 (totalAgentAdded tot)) (float64 totalInCommit)) 100
                else 0)
         in Some \<lparr>CalculatedAt = now,
                   AgentLines = totalAgentAdded tot,
                   HumanAdded = totalHumanAdded tot,
                   HumanModified = totalHumanModified tot,
                   HumanRemoved = totalHumanRemoved tot,
                   TotalCommitted = totalInCommit,
                   AgentPercentage = agentPercentage\<rparr>))"

subsection \<open>The per-file rules as the specification words them\<close>

text \<open>
  The second definition of a file's contribution follows the specification, with
  \<open>max\<close>, \<open>min\<close> and a clamp, to be compared with the loop body \<open>attributeFile\<close>.
\<close>

record Contribution =
  agentAdded :: int
  pureHumanAdded :: int
  humanModified :: int
  actualHumanRemoved :: int
  commitAdded :: int

definition clamp :: "int \<Rightarrow> int \<Rightarrow> int \<Rightarrow> int" where
  "clamp x lo hi = (if x < lo then lo else if x > hi then hi else x)"

definition spec_contribution :: "line_differ \<Rightarrow> string \<Rightarrow> string \<Rightarrow> string \<Rightarrow> Contribution" where
  "spec_contribution dmp base checkpoint committed =
     (let (u1, cAdded, cRemoved) = diffLines dmp base committed;
          (u2, hAdded, hRemoved) = diffLines dmp checkpoint committed;
          hModified = min hAdded hRemoved;
          pureRemoved = hRemoved - hModified
      in \<lparr>agentAdded = max 0 (cAdded - hAdded),
          pureHumanAdded = hAdded - hModified,
          humanModified = hModified,
          actualHumanRemoved =
            clamp (cRemoved - max 0 (countLinesStr base - countLinesStr checkpoint)) 0 pureRemoved,
          commitAdded = cAdded\<rparr>)"

definition changedFiles :: "Tree option \<Rightarrow> Tree option \<Rightarrow> string list \<Rightarrow> string list" where
  "changedFiles baseTree committedTree filesTouched =
     filter (\<lambda>f. getFileContent baseTree f \<noteq> getFileContent committedTree f) filesTouched"

definition fileContribution ::
  "line_differ \<Rightarrow> Tree option \<Rightarrow> Tree option \<Rightarrow> Tree option \<Rightarrow> string \<Rightarrow> Contribution" where
  "fileContribution dmp baseTree checkpointTree committedTree f =
     spec_contribution dmp (getFileContent baseTree f) (getFileContent checkpointTree f)
       (getFileContent committedTree f)"

definition addContribution :: "Totals \<Rightarrow> Contribution \<Rightarrow> Totals" where
  "addContribution tot c =
     \<lparr>totalAgentAdded = totalAgentAdded tot + agentAdded c,
      totalHumanAdded = totalHumanAdded tot + pureHumanAdded c,
      totalHumanModified = totalHumanModified tot + humanModified c,
      totalHumanRemoved = totalHumanRemoved tot + actualHumanRemoved c,
      totalCommitAdded = totalCommitAdded tot + commitAdded c\<rparr>"

subsection \<open>What a line-based diff is\<close>

text \<open>
  The contract of the diff library's line mode, used where a claim depends on what the
  library returns: the texts of the \<open>DiffEqual\<close> and \<open>DiffDelete\<close> pieces, in order,
  concatenate to the first text, those of the \<open>DiffEqual\<close> and \<open>DiffInsert\<close> pieces to
  the second, and on each side every non-empty piece but the last ends at a newline
  (pieces are rebuilt from whole lines).
\<close>

definition sideTexts :: "Operation \<Rightarrow> Diff list \<Rightarrow> string list" where
  "sideTexts other ds = map Text (filter (\<lambda>d. Type d \<noteq> other) ds)"

definition lineAligned :: "string list \<Rightarrow> bool" where
  "lineAligned ts = list_all (\<lambda>t. HasSuffix t [newline]) (butlast (filter (\<lambda>t. t \<noteq> []) ts))"

definition lineBasedDiff :: "string \<Rightarrow> string \<Rightarrow> Diff list \<Rightarrow> bool" where
  "lineBasedDiff text1 text2 ds =
     (concat (sideTexts DiffInsert ds) = text1 \<and> lineAligned (sideTexts DiffInsert ds)
      \<and> concat (sideTexts DiffDelete ds) = text2 \<and> lineAligned (sideTexts DiffDelete ds))"

definition linesOf :: "Operation \<Rightarrow> Diff list \<Rightarrow> int" where
  "linesOf op ds = (\<Sum>d\<leftarrow>filter (\<lambda>d. Type d = op) ds. countLinesInText (Text d))"

subsection \<open>A worked example\<close>

text \<open>
  File \<open>f\<close> holds one line at the base, the agent adds two lines, and the user then
  replaces the last of them before committing. \<open>ex_dmp\<close> is the edit script a
  line-based diff returns on these texts.
\<close>

definition ex_base :: string where "ex_base = ''a'' @ [newline]"
definition ex_checkpoint :: string where
  "ex_checkpoint = ''a'' @ [newline] @ ''b'' @ [newline] @ ''c'' @ [newline]"
definition ex_committed :: string where
  "ex_committed = ''a'' @ [newline] @ ''b'' @ [newline] @ ''d'' @ [newline]"

definition ex_tree :: "string \<Rightarrow> Tree option" where
  "ex_tree content = Some (\<lambda>p. if p = ''f'' then Blob content else NoFile)"

definition ex_dmp :: line_differ where
  "ex_dmp x y =
     (if x = ex_base then
        [\<lparr>Type = DiffEqual, Text = ''a'' @ [newline]\<rparr>,
         \<lparr>Type = DiffInsert, Text = ''b'' @ [newline] @ ''d'' @ [newline]\<rparr>]
      else
        [\<lparr>Type = DiffEqual, Text = ''a'' @ [newline] @ ''b'' @ [newline]\<rparr>,
         \<lparr>Type = DiffDelete, Text = ''c'' @ [newline]\<rparr>,
         \<lparr>Type = DiffInsert, Text = ''d'' @ [newline]\<rparr>])"

text \<open>
  A second example: a new file of 25 blank lines, of which the checkpoint already held
  the first 7. \<open>prefix_dmp\<close> is the edit script of a line-based diff when the second text
  extends the first: the first text kept, the rest inserted.
\<close>

definition blank_lines :: "nat \<Rightarrow> string" where
  "blank_lines n = replicate n newline"

definition prefix_dmp :: line_differ where
  "prefix_dmp x y =
     [\<lparr>Type = DiffEqual, Text = x\<rparr>, \<lparr>Type = DiffInsert, Text = drop (length x) y\<rparr>]"

section \<open>Self-modification estimate and accumulated attribution\<close>

text \<open>
  A Go \<open>map[string]int\<close> is modelled as an association list with pairwise distinct keys;
  \<open>range\<close> visits its entries in some order, here the order of the list. Indexing a map
  with a missing key yields the zero value.
\<close>

type_synonym count_map = "(string \<times> int) list"






record PromptAttribution =
  UserLinesAdded :: int
  UserLinesRemoved :: int
  UserAddedPerFile :: count_map


















subsection \<open>A user replacing lines of their own\<close>



subsection \<open>The scenario of the specification\<close>










section \<open>Checkpoint identity\<close>

text \<open>Lower-case hexadecimal digits, as \<open>encoding/hex\<close> writes them.\<close>

definition hexDigit :: "nat \<Rightarrow> char" where
  "hexDigit n = ''0123456789abcdef'' ! n"

definition hexByte :: "8 word \<Rightarrow> string" where
  "hexByte b = [hexDigit (unat b div 16), hexDigit (unat b mod 16)]"

definition EncodeToString :: "8 word list \<Rightarrow> string" where
  "EncodeToString bs = concat (map hexByte bs)"

definition isLowerHex :: "char \<Rightarrow> bool" where
  "isLowerHex c = (c \<in> set ''0123456789abcdef'')"

type_synonym CheckpointID = string

datatype id_error = EntropySourceError | InvalidFormatError

text \<open>Modelled from the spec: \<open>Generate\<close> of the package \<open>checkpoint/id\<close> (only its tests
  are included). It produces a random 12-hex-character value and fails with
  \<open>EntropySourceError\<close> when the random source is exhausted; the source is the list of
  the random bytes it can still deliver, of which six are read.\<close>

definition Generate :: "8 word list \<Rightarrow> id_error + CheckpointID" where
  "Generate entropy =
     (if length entropy < 6 then Inl EntropySourceError
      else Inr (EncodeToString (take 6 entropy)))"

text \<open>Modelled from the spec: \<open>Parse\<close> (\<open>NewCheckpointID\<close> in the tests) fails with
  \<open>InvalidFormatError\<close> unless the input is exactly 12 characters drawn from
  \<open>[0-9a-f]\<close>.\<close>

definition Parse :: "string \<Rightarrow> id_error + CheckpointID" where
  "Parse s = (if length s = 12 \<and> list_all isLowerHex s then Inr s else Inl InvalidFormatError)"

text \<open>Modelled from the spec: \<open>String\<close>, the identifier as a string.\<close>

definition String :: "CheckpointID \<Rightarrow> string" where
  "String cid = cid"

text \<open>Modelled from the spec: \<open>IsEmpty\<close> is true only for the empty sentinel.\<close>

definition IsEmpty :: "CheckpointID \<Rightarrow> bool" where
  "IsEmpty cid = (cid = [])"

text \<open>Modelled from the spec: \<open>Path\<close>; for length at least 3 it returns
  \<open>s[0:2] + "/" + s[2:]\<close>, for a shorter string the string unchanged.\<close>

definition Path :: "CheckpointID \<Rightarrow> string" where
  "Path cid = (if length cid < 3 then cid else take 2 cid @ ''/'' @ drop 2 cid)"

section \<open>Shadow branch migration (manual\_commit\_migration.go)\<close>

text \<open>
  A \<open>plumbing.Hash\<close> is 20 bytes, modelled as a 160-bit word; \<open>String()\<close> writes it as 40
  hexadecimal digits, most significant first. So \<open>currentHead[:7]\<close> never slices out of
  range, and \<open>take 7\<close> is that slice.
\<close>

type_synonym Hash = "160 word"

definition Hash_String :: "Hash \<Rightarrow> string" where
  "Hash_String h = map (\<lambda>i. hexDigit (unat h div 16 ^ (39 - i) mod 16)) [0..<40]"

text \<open>Modelled from the spec: the record \<open>SessionState\<close> (its declaration is in
  \<open>manual_commit_types.go\<close>), with the fields the specification lists.\<close>

record SessionState =
  SessionID :: string
  WorktreeID :: string
  BaseCommit :: string
  CheckpointCount :: int
  ConcurrentWarningShown :: bool
  PromptAttributions :: "PromptAttribution list"

text \<open>
  The part of a \<open>*git.Repository\<close> the migration touches: what \<open>Head()\<close> returns (an error
  message or the hash HEAD resolves to), the resolved references by full name, and
  whether the storer's \<open>SetReference\<close> and \<open>RemoveReference\<close> fail (with which message).
  A failing storer operation leaves the references as they are.
\<close>

record Repository =
  head :: "string + Hash"
  refs :: "string \<rightharpoonup> Hash"
  setReferenceErr :: "string option"
  removeReferenceErr :: "string option"

definition NewBranchReferenceName :: "string \<Rightarrow> string" where
  "NewBranchReferenceName name = ''refs/heads/'' @ name"

text \<open>\<open>repo.Reference(name, true)\<close>: the hash the reference resolves to, or an error. The
  caller reads every error as "reference not found", the only one modelled.\<close>

definition Reference :: "Repository \<Rightarrow> string \<Rightarrow> string + Hash" where
  "Reference rp name =
     (case refs rp name of None \<Rightarrow> Inl ''reference not found'' | Some h \<Rightarrow> Inr h)"

definition SetReference :: "Repository \<Rightarrow> string \<Rightarrow> Hash \<Rightarrow> string + Repository" where
  "SetReference rp name h =
     (case setReferenceErr rp of
        Some e \<Rightarrow> Inl e
      | None \<Rightarrow> Inr (rp\<lparr>refs := (refs rp)(name \<mapsto> h)\<rparr>))"

definition RemoveReference :: "Repository \<Rightarrow> string \<Rightarrow> string + Repository" where
  "RemoveReference rp name =
     (case removeReferenceErr rp of
        Some e \<Rightarrow> Inl e
      | None \<Rightarrow> Inr (rp\<lparr>refs := (refs rp)(name := None)\<rparr>))"

text \<open>The two errors the function returns, each wrapping the message of its cause.\<close>

datatype migration_error =
    FailedToGetHEAD string
  | FailedToCreateShadowBranch string string

text \<open>
  The function returns \<open>(bool, error)\<close> and mutates \<open>*state\<close> and the repository; the
  outcome holds the two results, the state and the repository after the call, and the
  lines written to standard error. \<open>checkpoint.ShadowBranchNameForCommit\<close> is defined
  in the package \<open>checkpoint\<close>, whose source is not included, and is a parameter.
\<close>

record Outcome =
  migrated :: bool
  error :: "migration_error option"
  state :: "SessionState option"
  repo :: Repository
  stderr :: "string list"

definition migrateShadowBranchIfNeeded ::
  "(string \<Rightarrow> string \<Rightarrow> string) \<Rightarrow> Repository \<Rightarrow> SessionState option \<Rightarrow> Outcome" where
  "migrateShadowBranchIfNeeded ShadowBranchNameForCommit rp st =
     (case st of
        None \<Rightarrow> \<lparr>migrated = False, error = None, state = st, repo = rp, stderr = []\<rparr>
      | Some s \<Rightarrow>
          if BaseCommit s = [] then
            \<lparr>migrated = False, error = None, state = st, repo = rp, stderr = []\<rparr>
          else
            (case head rp of
               Inl e \<Rightarrow>
                 \<lparr>migrated = False, error = Some (FailedToGetHEAD e), state = st, repo = rp,
                  stderr = []\<rparr>
             | Inr h \<Rightarrow>
                 (let currentHead = Hash_String h
                  in if BaseCommit s = currentHead then
                       \<lparr>migrated = False, error = None, state = st, repo = rp, stderr = []\<rparr>
                     else
                       (let oldShadowBranch = ShadowBranchNameForCommit (BaseCommit s) (WorktreeID s);
                            newShadowBranch = ShadowBranchNameForCommit currentHead (WorktreeID s);
                            oldRefName = NewBranchReferenceName oldShadowBranch
                        in case Reference rp oldRefName of
                             Inl e \<Rightarrow>
                               \<lparr>migrated = True, error = None,
                                state = Some (s\<lparr>BaseCommit := currentHead\<rparr>), repo = rp,
                                stderr = [''Updated session base commit to '' @ take 7 currentHead
                                          @ '' (HEAD changed during session)'' @ [newline]]\<rparr>
                           | Inr oldHash \<Rightarrow>
                               (let newRefName = NewBranchReferenceName newShadowBranch
                                in case SetReference rp newRefName oldHash of
                                     Inl e \<Rightarrow>
                                       \<lparr>migrated = False,
                                        error = Some (FailedToCreateShadowBranch newShadowBranch e),
                                        state = st, repo = rp, stderr = []\<rparr>
                                   | Inr rp1 \<Rightarrow>
                                       (let (rp2, warning) =
                                              (case RemoveReference rp1 oldRefName of
                                                 Inl e \<Rightarrow>
                                                   (rp1, [''Warning: failed to remove old shadow branch ''
                                                          @ oldShadowBranch @ '': '' @ e @ [newline]])
                                               | Inr r \<Rightarrow> (r, []))
                                        in \<lparr>migrated = True, error = None,
                                            state = Some (s\<lparr>BaseCommit := currentHead\<rparr>),
                                            repo = rp2,
                                            stderr = warning
                                              @ [''Moved shadow branch from '' @ oldShadowBranch
                                                 @ '' to '' @ newShadowBranch
                                                 @ '' (HEAD changed during session)'' @ [newline]]\<rparr>))))))"

subsection \<open>A stale session\<close>

text \<open>
  A session recorded at base commit \<open>old\<close> in worktree \<open>wt\<close>, with a shadow branch, in a
  repository whose HEAD has moved; the same repository with a storer that refuses to
  write; and a naming function standing for \<open>ShadowBranchNameForCommit\<close>.
\<close>

definition ex_nameFor :: "string \<Rightarrow> string \<Rightarrow> string" where
  "ex_nameFor baseCommit worktreeID = ''entire/'' @ baseCommit @ ''-'' @ worktreeID"

definition ex_state :: SessionState where
  "ex_state = \<lparr>SessionID = ''s1'', WorktreeID = ''wt'', BaseCommit = ''old'', CheckpointCount = 1,
                ConcurrentWarningShown = False, PromptAttributions = []\<rparr>"

definition ex_repo :: Repository where
  "ex_repo = \<lparr>head = Inr 1, refs = [''refs/heads/entire/old-wt'' \<mapsto> 7],
               setReferenceErr = None, removeReferenceErr = None\<rparr>"

definition ex_repo_readonly :: Repository where
  "ex_repo_readonly = ex_repo\<lparr>setReferenceErr := Some ''permission denied''\<rparr>"

section \<open>The concurrent-session gate\<close>

text \<open>Modelled from the spec: the session state store (its code and that of the
  prompt-submit hook are not included, only integration tests that run the built
  program): the live session records, looked up by session identifier.\<close>

type_synonym SessionStore = "SessionState list"

text \<open>Modelled from the spec: \<open>Load(sessionID)\<close>, the record of a session if there is
  one.\<close>

definition Load :: "SessionStore \<Rightarrow> string \<Rightarrow> SessionState option" where
  "Load store sessionID = find (\<lambda>s. SessionID s = sessionID) store"

text \<open>Modelled from the spec: \<open>Save(SessionState)\<close>, replacing the session's record or
  adding it.\<close>

fun Save :: "SessionStore \<Rightarrow> SessionState \<Rightarrow> SessionStore" where
  "Save [] s = [s]"
| "Save (x # xs) s = (if SessionID x = SessionID s then s # xs else x # Save xs s)"

text \<open>Modelled from the spec: another live session sharing context (the same worktree)
  conflicts only if it has \<open>CheckpointCount > 0\<close>.\<close>

definition conflicts :: "string \<Rightarrow> string \<Rightarrow> SessionState \<Rightarrow> bool" where
  "conflicts sessionID worktree s =
     (SessionID s \<noteq> sessionID \<and> WorktreeID s = worktree \<and> CheckpointCount s > 0)"

text \<open>Modelled from the spec: \<open>DetectConcurrentSession\<close> scans the other live session
  records and returns a conflicting one, if any.\<close>

definition DetectConcurrentSession :: "SessionStore \<Rightarrow> string \<Rightarrow> string \<Rightarrow> SessionState option" where
  "DetectConcurrentSession store sessionID worktree = find (conflicts sessionID worktree) store"

text \<open>The hook's structured answer: \<open>continue\<close> and a human-readable \<open>stopReason\<close>.\<close>

record HookResponse =
  continue :: bool
  stopReason :: string

text \<open>Modelled from the spec: the record created on a session's first prompt
  submission.\<close>

definition newSessionState :: "string \<Rightarrow> string \<Rightarrow> string \<Rightarrow> bool \<Rightarrow> SessionState" where
  "newSessionState sessionID worktree baseCommit warned =
     \<lparr>SessionID = sessionID, WorktreeID = worktree, BaseCommit = baseCommit, CheckpointCount = 0,
      ConcurrentWarningShown = warned, PromptAttributions = []\<rparr>"

text \<open>Modelled from the spec: the gate policy of the prompt-submit hook. The first prompt
  of a new session (one without a record) is blocked when a conflicting session is
  detected: the agent is not invoked (\<open>continue = false\<close>), a reason naming the other
  session is returned and \<open>ConcurrentWarningShown\<close> is set on the new session's record.
  Every later prompt of the session proceeds.\<close>

definition SubmitPrompt ::
  "SessionStore \<Rightarrow> string \<Rightarrow> string \<Rightarrow> string \<Rightarrow> HookResponse \<times> SessionStore" where
  "SubmitPrompt store sessionID worktree baseCommit =
     (case Load store sessionID of
        Some s \<Rightarrow> (\<lparr>continue = True, stopReason = []\<rparr>, store)
      | None \<Rightarrow>
          (case DetectConcurrentSession store sessionID worktree of
             Some other \<Rightarrow>
               (\<lparr>continue = False,
                 stopReason = ''Another session is active: '' @ SessionID other\<rparr>,
                Save store (newSessionState sessionID worktree baseCommit True))
           | None \<Rightarrow>
               (\<lparr>continue = True, stopReason = []\<rparr>,
                Save store (newSessionState sessionID worktree baseCommit False))))"

text \<open>Session A of the integration tests, after its first checkpoint.\<close>

definition ex_sessionA :: SessionState where
  "ex_sessionA = \<lparr>SessionID = ''A'', WorktreeID = ''wt'', BaseCommit = ''old'', CheckpointCount = 1,
                   ConcurrentWarningShown = False, PromptAttributions = []\<rparr>"

section \<open>Properties of the double-precision arithmetic\<close>

lemma rhe_floor: "roundHalfEven x = \<lfloor>x\<rfloor> \<or> roundHalfEven x = \<lfloor>x\<rfloor> + 1"
  by (simp add: roundHalfEven_def Let_def)

lemma rhe_err: "\<bar>of_int (roundHalfEven x) - x\<bar> \<le> 1 / 2"
  unfolding roundHalfEven_def Let_def by (auto simp: abs_if) linarith+

lemma rhe_of_int [simp]: "roundHalfEven (of_int n) = n"
  by (simp add: roundHalfEven_def)

lemma rhe_le_int: "x \<le> of_int n \<Longrightarrow> roundHalfEven x \<le> n"
proof -
  assume a: "x \<le> of_int n"
  show ?thesis
  proof (cases "x = of_int n")
    case True
    then show ?thesis by simp
  next
    case False
    with a have "x < of_int n" by simp
    then have "\<lfloor>x\<rfloor> < n" by (simp add: floor_less_iff)
    with rhe_floor [of x] show ?thesis by auto
  qed
qed

lemma rhe_ge_int: "of_int n \<le> x \<Longrightarrow> n \<le> roundHalfEven x"
proof -
  assume "of_int n \<le> x"
  then have "n \<le> \<lfloor>x\<rfloor>" by (simp add: le_floor_iff)
  with rhe_floor [of x] show ?thesis by auto
qed

lemma rhe_mono: "x \<le> y \<Longrightarrow> roundHalfEven x \<le> roundHalfEven y"
proof -
  assume xy: "x \<le> y"
  then have fl: "\<lfloor>x\<rfloor> \<le> \<lfloor>y\<rfloor>" by (rule floor_mono)
  show ?thesis
  proof (cases "\<lfloor>x\<rfloor> = \<lfloor>y\<rfloor>")
    case True
    with xy show ?thesis by (auto simp: roundHalfEven_def Let_def)
  next
    case False
    with fl have "\<lfloor>x\<rfloor> + 1 \<le> \<lfloor>y\<rfloor>" by simp
    with rhe_floor [of x] rhe_floor [of y] show ?thesis by auto
  qed
qed

lemma powi2_less_imp: "(2::real) powi m < 2 powi n \<Longrightarrow> m < n"
proof (rule ccontr)
  assume a: "(2::real) powi m < 2 powi n" and "\<not> m < n"
  then have "n \<le> m" by simp
  then have "(2::real) powi n \<le> 2 powi m" by (rule power_int_increasing) simp
  with a show False by simp
qed

lemma powi2_pos: "(0::real) < 2 powi j"
  by (simp add: zero_less_power_int)

lemma exponent2_small:
  fixes x :: real
  assumes x: "0 < x" and lo: "2 powi k \<le> 1 / x" and hi: "1 / x < 2 powi (k + 1)"
  defines "e \<equiv> (if x * 2 powi k = 1 then - k else - k - 1)"
  shows "2 powi e \<le> x \<and> x < 2 powi (e + 1)"
proof -
  have m1: "(2::real) powi (- k) = 1 / 2 powi k" by (rule power_int_minus_divide)
  have m2: "(2::real) powi (- k - 1) = 1 / 2 powi (k + 1)"
  proof -
    have "- k - 1 = - (k + 1)" by simp
    then show ?thesis by (simp only: power_int_minus_divide)
  qed
  have m3: "(2::real) powi (- k + 1) = 2 / 2 powi k"
  proof -
    have "(2::real) powi (- k + 1) = 2 powi (- k) * 2 powi 1"
      by (rule power_int_add) simp
    then show ?thesis by (simp only: m1) simp
  qed
  from lo x powi2_pos [of k] have xle: "x * 2 powi k \<le> 1"
    by (simp add: field_simps)
  from hi x powi2_pos [of "k + 1"] have xgt: "1 < x * 2 powi (k + 1)"
    by (simp add: field_simps)
  show ?thesis
  proof (cases "x * 2 powi k = 1")
    case True
    then have e: "e = - k" by (simp add: e_def)
    from True powi2_pos [of k] have xe: "x = 1 / 2 powi k" by (simp add: field_simps)
    have "(1::real) / 2 powi k < 2 / 2 powi k"
      using powi2_pos [of k] by (intro divide_strict_right_mono) simp_all
    with xe show ?thesis unfolding e m1 m3 by simp
  next
    case False
    then have e: "e = - k - 1" by (simp add: e_def)
    from False xle have "x * 2 powi k < 1" by simp
    then have a: "x < 2 powi (- k)" using powi2_pos [of k] unfolding m1 by (simp add: field_simps)
    from xgt have b: "2 powi (- k - 1) \<le> x" using powi2_pos [of "k + 1"] unfolding m2
      by (simp add: field_simps)
    have "- k - 1 + 1 = - k" by simp
    with a b show ?thesis unfolding e by simp
  qed
qed

lemma exponent2_bounds:
  assumes "0 < x"
  shows "2 powi (exponent2 x) \<le> x \<and> x < 2 powi (exponent2 x + 1)"
proof (cases "1 \<le> x")
  case True
  let ?n = "\<lfloor>x\<rfloor>"
  from True have n: "0 < ?n" by simp
  from bitlen_bounds [OF n] have b: "2 ^ nat (bitlen ?n - 1) \<le> ?n" "?n < 2 ^ nat (bitlen ?n)"
    by simp_all
  from n have bl: "1 \<le> bitlen ?n" by (simp add: bitlen_alt_def)
  have lo: "(2::real) powi (bitlen ?n - 1) \<le> x"
  proof -
    from b(1) have "real_of_int (2 ^ nat (bitlen ?n - 1)) \<le> real_of_int ?n" by (simp only: of_int_le_iff)
    also have "\<dots> \<le> x" by simp
    finally show ?thesis using bl by (simp add: power_int_nonneg_exp)
  qed
  have hi: "x < (2::real) powi (bitlen ?n)"
  proof -
    from b(2) have "?n + 1 \<le> 2 ^ nat (bitlen ?n)" by simp
    then have "real_of_int (?n + 1) \<le> real_of_int (2 ^ nat (bitlen ?n))" by (simp only: of_int_le_iff)
    moreover have "x < real_of_int (?n + 1)" by linarith
    ultimately have "x < real_of_int (2 ^ nat (bitlen ?n))" by linarith
    then show ?thesis using bl by (simp add: power_int_nonneg_exp)
  qed
  from True lo hi show ?thesis by (simp add: exponent2_def)
next
  case False
  with assms have x1: "x < 1" by simp
  define n where "n = \<lfloor>1 / x\<rfloor>"
  define k where "k = bitlen n - 1"
  from assms x1 have y1: "1 < 1 / x" by simp
  then have n: "0 < n" by (simp add: n_def)
  from bitlen_bounds [OF n] have b: "2 ^ nat k \<le> n" "n < 2 ^ nat (bitlen n)"
    by (simp_all add: k_def)
  from n have bl: "1 \<le> bitlen n" by (simp add: bitlen_alt_def)
  then have k0: "0 \<le> k" by (simp add: k_def)
  have k1: "nat (bitlen n) = nat (k + 1)" by (simp add: k_def)
  have lo: "(2::real) powi k \<le> 1 / x"
  proof -
    from b(1) have "real_of_int (2 ^ nat k) \<le> real_of_int n" by (simp only: of_int_le_iff)
    also have "\<dots> \<le> 1 / x" unfolding n_def by (rule of_int_floor_le)
    finally show ?thesis using k0 by (simp add: power_int_nonneg_exp)
  qed
  have hi: "1 / x < (2::real) powi (k + 1)"
  proof -
    from b(2) have "n + 1 \<le> 2 ^ nat (k + 1)" unfolding k1 by simp
    then have "real_of_int (n + 1) \<le> real_of_int (2 ^ nat (k + 1))" by (simp only: of_int_le_iff)
    moreover have "1 / x < real_of_int (n + 1)" unfolding n_def by linarith
    ultimately have "1 / x < real_of_int (2 ^ nat (k + 1))" by linarith
    then show ?thesis using k0 by (simp add: power_int_nonneg_exp)
  qed
  have "exponent2 x = (if x * 2 powi k = 1 then - k else - k - 1)"
    using False by (simp add: exponent2_def Let_def k_def n_def)
  with exponent2_small [OF assms lo hi] show ?thesis by simp
qed

lemma exponent2_unique:
  assumes "0 < x" and "2 powi e \<le> x" and "x < 2 powi (e + 1)"
  shows "exponent2 x = e"
proof -
  from exponent2_bounds [OF assms(1)]
  have b: "2 powi (exponent2 x) \<le> x" "x < 2 powi (exponent2 x + 1)" by simp_all
  from b(1) assms(3) have "(2::real) powi (exponent2 x) < 2 powi (e + 1)" by simp
  then have 1: "exponent2 x < e + 1" by (rule powi2_less_imp)
  from assms(2) b(2) have "(2::real) powi e < 2 powi (exponent2 x + 1)" by simp
  then have 2: "e < exponent2 x + 1" by (rule powi2_less_imp)
  from 1 2 show ?thesis by simp
qed

lemma exponent2_mono:
  assumes "0 < x" and "x \<le> y"
  shows "exponent2 x \<le> exponent2 y"
proof -
  from assms have y: "0 < y" by simp
  from exponent2_bounds [OF assms(1)] exponent2_bounds [OF y] assms(2)
  have "(2::real) powi (exponent2 x) < 2 powi (exponent2 y + 1)" by simp
  then have "exponent2 x < exponent2 y + 1" by (rule powi2_less_imp)
  then show ?thesis by simp
qed

lemma round64_pos:
  assumes "0 < x"
  shows "round64 x = of_int (roundHalfEven (x / 2 powi (exponent2 x - 52))) * 2 powi (exponent2 x - 52)"
  using assms by (simp add: round64_def Let_def)

lemma round64_zero [simp]: "round64 0 = 0"
  by (simp add: round64_def)

lemma powi2_split: "(2::real) powi m = 2 powi (m - n) * 2 powi n"
proof -
  have "(2::real) powi (m - n + n) = 2 powi (m - n) * 2 powi n"
    by (rule power_int_add) simp
  then show ?thesis by simp
qed

lemma round64_lower:
  assumes "0 < x"
  shows "2 powi (exponent2 x) \<le> round64 x"
proof -
  define e where "e = exponent2 x"
  define u :: real where "u = 2 powi (e - 52)"
  have u: "0 < u" unfolding u_def by (rule powi2_pos)
  have pe: "(2::real) powi e = of_int (2 ^ 52) * u"
    unfolding u_def using powi2_split [of e "e - 52"] by simp
  from exponent2_bounds [OF assms] have "2 powi e \<le> x" by (simp add: e_def)
  then have "of_int (2 ^ 52) \<le> x / u" using u unfolding pe by (simp add: field_simps)
  then have "2 ^ 52 \<le> roundHalfEven (x / u)" by (rule rhe_ge_int)
  then have "real_of_int (2 ^ 52) \<le> of_int (roundHalfEven (x / u))" by (simp only: of_int_le_iff)
  then have "of_int (2 ^ 52) * u \<le> of_int (roundHalfEven (x / u)) * u"
    using u by (simp only: mult_le_cancel_right_pos)
  then show ?thesis
    unfolding round64_pos [OF assms] pe [symmetric] e_def [symmetric] u_def [symmetric]
    by (simp add: e_def)
qed

lemma round64_upper:
  assumes "0 < x"
  shows "round64 x \<le> 2 powi (exponent2 x + 1)"
proof -
  define e where "e = exponent2 x"
  define u :: real where "u = 2 powi (e - 52)"
  have u: "0 < u" unfolding u_def by (rule powi2_pos)
  have pe: "(2::real) powi (e + 1) = of_int (2 ^ 53) * u"
    unfolding u_def using powi2_split [of "e + 1" "e - 52"] by simp
  from exponent2_bounds [OF assms] have "x \<le> 2 powi (e + 1)" by (simp add: e_def)
  then have "x / u \<le> of_int (2 ^ 53)" using u unfolding pe by (simp add: field_simps)
  then have "roundHalfEven (x / u) \<le> 2 ^ 53" by (rule rhe_le_int)
  then have "real_of_int (roundHalfEven (x / u)) \<le> of_int (2 ^ 53)" by (simp only: of_int_le_iff)
  then have "of_int (roundHalfEven (x / u)) * u \<le> of_int (2 ^ 53) * u"
    using u by (simp only: mult_le_cancel_right_pos)
  then show ?thesis
    unfolding round64_pos [OF assms] pe [symmetric] e_def [symmetric] u_def [symmetric]
    by (simp add: e_def)
qed

lemma round64_nonneg: "0 \<le> x \<Longrightarrow> 0 \<le> round64 x"
proof (cases "x = 0")
  case True
  then show ?thesis by simp
next
  case False
  assume "0 \<le> x"
  with False have x: "0 < x" by simp
  have "(0::real) \<le> 2 powi (exponent2 x)" using powi2_pos [of "exponent2 x"] by simp
  with round64_lower [OF x] show ?thesis by linarith
qed

lemma round64_mono:
  assumes "0 \<le> x" and "x \<le> y"
  shows "round64 x \<le> round64 y"
proof (cases "x = 0")
  case True
  from assms have "0 \<le> y" by simp
  with True show ?thesis by (simp add: round64_nonneg)
next
  case False
  with assms have x: "0 < x" and y: "0 < y" by simp_all
  from exponent2_mono [OF x assms(2)] have le: "exponent2 x \<le> exponent2 y" .
  show ?thesis
  proof (cases "exponent2 x = exponent2 y")
    case True
    define u :: real where "u = 2 powi (exponent2 y - 52)"
    have u: "0 < u" unfolding u_def by (rule powi2_pos)
    from assms(2) u have "x / u \<le> y / u" by (simp add: divide_right_mono)
    then have "roundHalfEven (x / u) \<le> roundHalfEven (y / u)" by (rule rhe_mono)
    then have "real_of_int (roundHalfEven (x / u)) \<le> of_int (roundHalfEven (y / u))"
      by (simp only: of_int_le_iff)
    then have "of_int (roundHalfEven (x / u)) * u \<le> of_int (roundHalfEven (y / u)) * u"
      using u by (simp only: mult_le_cancel_right_pos)
    then show ?thesis
      unfolding round64_pos [OF x] round64_pos [OF y] True u_def .
  next
    case False
    with le have "exponent2 x + 1 \<le> exponent2 y" by simp
    then have "(2::real) powi (exponent2 x + 1) \<le> 2 powi (exponent2 y)"
      by (rule power_int_increasing) simp
    with round64_upper [OF x] round64_lower [OF y] show ?thesis by linarith
  qed
qed

lemma round64_error:
  assumes "0 < x"
  shows "\<bar>round64 x - x\<bar> \<le> x / 2 ^ 53"
proof -
  define e where "e = exponent2 x"
  define u :: real where "u = 2 powi (e - 52)"
  have u: "0 < u" unfolding u_def by (rule powi2_pos)
  have pe: "(2::real) powi e = 2 ^ 52 * u"
    unfolding u_def using powi2_split [of e "e - 52"] by simp
  from exponent2_bounds [OF assms] have "2 powi e \<le> x" by (simp add: e_def)
  then have lo: "2 ^ 52 * u \<le> x" by (simp only: pe)
  have r: "round64 x = of_int (roundHalfEven (x / u)) * u"
    unfolding round64_pos [OF assms] u_def e_def ..
  have "\<bar>of_int (roundHalfEven (x / u)) - x / u\<bar> \<le> 1 / 2" by (rule rhe_err)
  then have "\<bar>of_int (roundHalfEven (x / u)) - x / u\<bar> * u \<le> 1 / 2 * u"
    using u by (simp only: mult_le_cancel_right_pos)
  moreover have "\<bar>of_int (roundHalfEven (x / u)) - x / u\<bar> * u = \<bar>round64 x - x\<bar>"
  proof -
    have "\<bar>of_int (roundHalfEven (x / u)) - x / u\<bar> * u
        = \<bar>(of_int (roundHalfEven (x / u)) - x / u) * u\<bar>"
      using u by (simp add: abs_mult)
    also have "(of_int (roundHalfEven (x / u)) - x / u) * u = round64 x - x"
      using u by (simp add: r left_diff_distrib)
    finally show ?thesis .
  qed
  ultimately have "\<bar>round64 x - x\<bar> \<le> u / 2" by simp
  also have "u / 2 \<le> x / 2 ^ 53" using lo by simp
  finally show ?thesis .
qed

lemma round64_exact:
  assumes "0 < x" and "x / 2 powi (exponent2 x - 52) = of_int n"
  shows "round64 x = x"
proof -
  have "(2::real) powi (exponent2 x - 52) \<noteq> 0" using powi2_pos [of "exponent2 x - 52"] by simp
  with assms(2) have "x = of_int n * 2 powi (exponent2 x - 52)" by (simp add: field_simps)
  then show ?thesis unfolding round64_pos [OF assms(1)] assms(2) by simp
qed

lemma round64_of_int:
  assumes "0 \<le> n" and "n < 2 ^ 53"
  shows "round64 (of_int n) = of_int n"
proof (cases "n = 0")
  case True
  then show ?thesis by simp
next
  case False
  with assms have n: "0 < real_of_int n" by simp
  define e where "e = exponent2 (of_int n)"
  from exponent2_bounds [OF n] have "2 powi e \<le> real_of_int n" by (simp add: e_def)
  also from assms(2) have "real_of_int n < of_int (2 ^ 53)" by (simp only: of_int_less_iff)
  finally have "(2::real) powi e < 2 powi 53" by simp
  then have "e < 53" by (rule powi2_less_imp)
  then have k: "0 \<le> 52 - e" by simp
  have "(2::real) powi (e - 52) = 1 / 2 powi (52 - e)"
    using power_int_minus_divide [of "2::real" "52 - e"] by simp
  then have "real_of_int n / 2 powi (e - 52) = of_int n * 2 ^ nat (52 - e)"
    using k by (simp add: power_int_nonneg_exp)
  also have "\<dots> = of_int (n * 2 ^ nat (52 - e))" by simp
  finally have "real_of_int n / 2 powi (exponent2 (of_int n) - 52) = of_int (n * 2 ^ nat (52 - e))"
    unfolding e_def .
  with n show ?thesis by (rule round64_exact)
qed

lemma round64_one: "round64 1 = 1"
  using round64_of_int [of 1] by simp

lemma round64_hundred: "round64 100 = 100"
  using round64_of_int [of 100] by simp

lemma round64_pos_pos: "0 < x \<Longrightarrow> 0 < round64 x"
  using round64_lower [of x] powi2_pos [of "exponent2 x"] by linarith

lemma percentage_bounds:
  assumes "0 \<le> a" and "a \<le> b" and "0 < b"
  shows "0 \<le> fmul (fdiv (float64 a) (float64 b)) 100
       \<and> fmul (fdiv (float64 a) (float64 b)) 100 \<le> 100"
proof -
  let ?fa = "float64 a" and ?fb = "float64 b"
  from assms(1) have fa: "0 \<le> ?fa" unfolding float64_def by (intro round64_nonneg) simp
  from assms have ab: "?fa \<le> ?fb" unfolding float64_def by (intro round64_mono) simp_all
  from assms(3) have "round64 1 \<le> ?fb" unfolding float64_def by (intro round64_mono) simp_all
  then have fb: "1 \<le> ?fb" by (simp only: round64_one)
  from fa ab fb have q0: "0 \<le> ?fa / ?fb" "?fa / ?fb \<le> 1" by simp_all
  from q0(1) have q1: "0 \<le> fdiv ?fa ?fb" unfolding fdiv_def by (rule round64_nonneg)
  from q0 have "fdiv ?fa ?fb \<le> round64 1" unfolding fdiv_def by (rule round64_mono)
  then have q2: "fdiv ?fa ?fb \<le> 1" by (simp only: round64_one)
  from q1 have y1: "0 \<le> fdiv ?fa ?fb * 100" by simp
  from q2 have y2: "fdiv ?fa ?fb * 100 \<le> 100" by simp
  from y1 have p1: "0 \<le> fmul (fdiv ?fa ?fb) 100" unfolding fmul_def by (rule round64_nonneg)
  from y1 y2 have "fmul (fdiv ?fa ?fb) 100 \<le> round64 100" unfolding fmul_def by (rule round64_mono)
  then have p2: "fmul (fdiv ?fa ?fb) 100 \<le> 100" by (simp only: round64_hundred)
  from p1 p2 show ?thesis by simp
qed

lemma round64_7_25: "round64 (7 / 25) = 1261007895663739 / 4503599627370496"
proof -
  have e: "exponent2 (7 / 25) = - 2"
    by (rule exponent2_unique) simp_all
  have p: "(2::real) powi (- 2 - 52) = 1 / 18014398509481984" by simp
  have r: "roundHalfEven (7 / 25 / (1 / 18014398509481984)) = 5044031582654956"
    by (simp add: roundHalfEven_def Let_def)
  have "(0::real) < 7 / 25" by simp
  from round64_pos [OF this] show ?thesis
    unfolding e p r by simp
qed

lemma round64_28: "round64 (1261007895663739 / 4503599627370496 * 100)
    = 7881299347898369 / 281474976710656"
proof -
  have e: "exponent2 (1261007895663739 / 4503599627370496 * 100) = 4"
    by (rule exponent2_unique) simp_all
  have p: "(2::real) powi (4 - 52) = 1 / 281474976710656" by simp
  have r: "roundHalfEven (1261007895663739 / 4503599627370496 * 100 / (1 / 281474976710656))
      = 7881299347898369"
    by (simp add: roundHalfEven_def Let_def)
  have "(0::real) < 1261007895663739 / 4503599627370496 * 100" by simp
  from round64_pos [OF this] show ?thesis
    unfolding e p r by simp
qed

lemma percentage_7_25:
  "fmul (fdiv (float64 7) (float64 25)) 100 = 7881299347898369 / 281474976710656"
proof -
  have "float64 7 = 7" "float64 25 = 25"
    using round64_of_int [of 7] round64_of_int [of 25] by (simp_all add: float64_def)
  then show ?thesis
    by (simp only: fdiv_def fmul_def round64_7_25 round64_28)
qed

lemma quotient_accuracy:
  fixes A B fa fb :: real
  assumes A: "0 < A" and AB: "A \<le> B"
    and ea: "\<bar>fa - A\<bar> \<le> A / 2 ^ 53" and eb: "\<bar>fb - B\<bar> \<le> B / 2 ^ 53"
  shows "\<bar>fa / fb - A / B\<bar> \<le> 4 / 2 ^ 53"
proof -
  from A AB have B: "0 < B" by simp
  have "B / 2 ^ 53 \<le> B / 2" using B by (intro divide_left_mono) simp_all
  with eb have "\<bar>fb - B\<bar> \<le> B / 2" by simp
  then have fb: "B / 2 \<le> fb" by linarith
  with B have fbp: "0 < fb" by simp
  have num: "\<bar>fa * B - A * fb\<bar> \<le> 2 * A * B / 2 ^ 53"
  proof -
    have "fa * B - A * fb = (fa - A) * B - A * (fb - B)" by (simp add: algebra_simps)
    then have "\<bar>fa * B - A * fb\<bar> \<le> \<bar>(fa - A) * B\<bar> + \<bar>A * (fb - B)\<bar>"
      by (simp only: abs_triangle_ineq4)
    also have "\<bar>(fa - A) * B\<bar> = \<bar>fa - A\<bar> * B" using B by (simp add: abs_mult)
    also have "\<bar>A * (fb - B)\<bar> = A * \<bar>fb - B\<bar>" using A by (simp add: abs_mult)
    also have "\<bar>fa - A\<bar> * B + A * \<bar>fb - B\<bar> \<le> A / 2 ^ 53 * B + A * (B / 2 ^ 53)"
      using ea eb A B by (intro add_mono mult_right_mono mult_left_mono) simp_all
    finally show ?thesis by (simp add: algebra_simps)
  qed
  have den: "B * B / 2 \<le> fb * B" using fb B by (simp add: mult_right_mono)
  have "fa / fb - A / B = (fa * B - A * fb) / (fb * B)"
    using fbp B by (simp add: field_simps)
  then have "\<bar>fa / fb - A / B\<bar> = \<bar>fa * B - A * fb\<bar> / (fb * B)"
    using fbp B by (simp add: abs_mult)
  also have "\<dots> \<le> (2 * A * B / 2 ^ 53) / (fb * B)"
    using num fbp B by (intro divide_right_mono) simp_all
  also have "\<dots> \<le> (2 * A * B / 2 ^ 53) / (B * B / 2)"
    using den A B by (intro divide_left_mono) simp_all
  also have "\<dots> = 4 / 2 ^ 53 * (A / B)" using B by (simp add: field_simps)
  also have "\<dots> \<le> 4 / 2 ^ 53 * 1"
    using AB B by (intro mult_left_mono) simp_all
  finally show ?thesis by simp
qed

lemma percentage_accuracy:
  assumes "0 \<le> a" and "a \<le> b" and "0 < b"
  shows "\<bar>fmul (fdiv (float64 a) (float64 b)) 100 - 100 * real_of_int a / real_of_int b\<bar>
           \<le> 600 / 2 ^ 53"
proof (cases "a = 0")
  case True
  then show ?thesis by (simp add: float64_def fdiv_def fmul_def)
next
  case False
  with assms have A: "0 < real_of_int a" and AB: "real_of_int a \<le> real_of_int b"
    and B: "0 < real_of_int b" by simp_all
  define q0 where "q0 = float64 a / float64 b"
  define q where "q = round64 q0"
  define y where "y = q * 100"
  have ea: "\<bar>float64 a - of_int a\<bar> \<le> of_int a / 2 ^ 53"
    unfolding float64_def by (rule round64_error [OF A])
  have eb: "\<bar>float64 b - of_int b\<bar> \<le> of_int b / 2 ^ 53"
    unfolding float64_def by (rule round64_error [OF B])
  from quotient_accuracy [OF A AB ea eb]
  have e0: "\<bar>q0 - real_of_int a / real_of_int b\<bar> \<le> 4 / 2 ^ 53" by (simp add: q0_def)
  have fa: "0 < float64 a" unfolding float64_def by (rule round64_pos_pos [OF A])
  have fab: "float64 a \<le> float64 b" unfolding float64_def using A AB by (intro round64_mono) simp_all
  from fa fab have q0: "0 < q0" "q0 \<le> 1" by (simp_all add: q0_def)
  from round64_error [OF q0(1)] have "\<bar>q - q0\<bar> \<le> q0 / 2 ^ 53" by (simp add: q_def)
  also from q0(2) have "q0 / 2 ^ 53 \<le> 1 / 2 ^ 53" by (simp add: divide_right_mono)
  finally have e1: "\<bar>q - q0\<bar> \<le> 1 / 2 ^ 53" .
  from round64_pos_pos [OF q0(1)] have qp: "0 < q" by (simp add: q_def)
  have "q \<le> round64 1" unfolding q_def using q0 by (intro round64_mono) simp_all
  then have q1: "q \<le> 1" by (simp only: round64_one)
  from qp q1 have yb: "0 < y" "y \<le> 100" by (simp_all add: y_def)
  from round64_error [OF yb(1)] have "\<bar>round64 y - y\<bar> \<le> y / 2 ^ 53" .
  also from yb(2) have "y / 2 ^ 53 \<le> 100 / 2 ^ 53" by (simp add: divide_right_mono)
  finally have e2: "\<bar>round64 y - y\<bar> \<le> 100 / 2 ^ 53" .
  define t where "t = real_of_int a / real_of_int b"
  have "\<bar>round64 y - 100 * t\<bar> \<le> \<bar>round64 y - y\<bar> + 100 * \<bar>q - q0\<bar> + 100 * \<bar>q0 - t\<bar>"
    unfolding y_def by (simp add: abs_if split: if_splits)
  also from e0 e1 e2 have "\<dots> \<le> 100 / 2 ^ 53 + 100 * (1 / 2 ^ 53) + 100 * (4 / 2 ^ 53)"
    unfolding t_def by (intro add_mono mult_left_mono) simp_all
  finally have "\<bar>round64 y - 100 * t\<bar> \<le> 600 / 2 ^ 53" by simp
  then show ?thesis
    unfolding fdiv_def fmul_def y_def q_def q0_def t_def by simp
qed

section \<open>Properties of the attribution engine\<close>

subsection \<open>Auxiliary facts\<close>

lemma countLinesStr_empty: "countLinesStr [] = 0"
  by (simp add: countLinesStr_def)

lemma countLinesStr_newlines: "0 < n \<Longrightarrow> countLinesStr (replicate n newline) = int n"
  by (simp add: countLinesStr_def Count_newline_def HasSuffix_def Let_def drop_replicate)

lemmas ex_defs = ex_base_def ex_checkpoint_def ex_committed_def ex_tree_def ex_dmp_def
  newline_def getFileContent_def diffLines_def countLinesInText_def countLinesStr_def
  Count_newline_def HasSuffix_def Let_def

lemma attributeFile_changed:
  "getFileContent bt f \<noteq> getFileContent mt f \<Longrightarrow>
   attributeFile dmp bt ct mt f tot = addContribution tot (fileContribution dmp bt ct mt f)"
  unfolding attributeFile_def fileContribution_def spec_contribution_def addContribution_def clamp_def
  by (auto simp: Let_def split: prod.splits)

lemma attributeFile_unchanged:
  "getFileContent bt f = getFileContent mt f \<Longrightarrow> attributeFile dmp bt ct mt f tot = tot"
  by (simp add: attributeFile_def)

lemma attributeFiles_sums:
  "attributeFiles dmp bt ct mt fs tot =
     \<lparr>totalAgentAdded = totalAgentAdded tot + (\<Sum>f\<leftarrow>changedFiles bt mt fs. agentAdded (fileContribution dmp bt ct mt f)),
      totalHumanAdded = totalHumanAdded tot + (\<Sum>f\<leftarrow>changedFiles bt mt fs. pureHumanAdded (fileContribution dmp bt ct mt f)),
      totalHumanModified = totalHumanModified tot + (\<Sum>f\<leftarrow>changedFiles bt mt fs. humanModified (fileContribution dmp bt ct mt f)),
      totalHumanRemoved = totalHumanRemoved tot + (\<Sum>f\<leftarrow>changedFiles bt mt fs. actualHumanRemoved (fileContribution dmp bt ct mt f)),
      totalCommitAdded = totalCommitAdded tot + (\<Sum>f\<leftarrow>changedFiles bt mt fs. commitAdded (fileContribution dmp bt ct mt f))\<rparr>"
proof (induction fs arbitrary: tot)
  case Nil
  then show ?case by (simp add: changedFiles_def)
next
  case (Cons f fs)
  show ?case
  proof (cases "getFileContent bt f = getFileContent mt f")
    case True
    then show ?thesis
      by (simp add: Cons.IH attributeFile_unchanged changedFiles_def)
  next
    case False
    then show ?thesis
      by (simp add: Cons.IH attributeFile_changed changedFiles_def addContribution_def)
  qed
qed

lemma Count_newline_nonneg: "0 \<le> Count_newline s"
  by (simp add: Count_newline_def)

lemma countLinesStr_nonneg: "0 \<le> countLinesStr s"
  using Count_newline_nonneg [of s] by (simp add: countLinesStr_def Let_def)

lemma countLinesInText_nonneg: "0 \<le> countLinesInText s"
  using Count_newline_nonneg [of s] by (simp add: countLinesInText_def Let_def)

lemma diffLines_step_nonneg:
  "0 \<le> u \<and> 0 \<le> a \<and> 0 \<le> r \<Longrightarrow> diffLines_step d (u, a, r) = (u', a', r')
   \<Longrightarrow> 0 \<le> u' \<and> 0 \<le> a' \<and> 0 \<le> r'"
  using countLinesInText_nonneg [of "Text d"]
  by (cases "Type d") (auto simp: Let_def)

lemma diffLines_loop_nonneg:
  "0 \<le> u \<and> 0 \<le> a \<and> 0 \<le> r \<Longrightarrow> diffLines_loop ds (u, a, r) = (u', a', r')
   \<Longrightarrow> 0 \<le> u' \<and> 0 \<le> a' \<and> 0 \<le> r'"
proof (induction ds arbitrary: u a r)
  case Nil
  then show ?case by simp
next
  case (Cons d ds)
  obtain u1 a1 r1 where s: "diffLines_step d (u, a, r) = (u1, a1, r1)"
    by (cases "diffLines_step d (u, a, r)") blast
  from diffLines_step_nonneg [OF Cons.prems(1) s] have "0 \<le> u1 \<and> 0 \<le> a1 \<and> 0 \<le> r1" .
  moreover from Cons.prems(2) s have "diffLines_loop ds (u1, a1, r1) = (u', a', r')" by simp
  ultimately show ?case using Cons.IH by blast
qed

lemma diffLines_nonneg:
  "diffLines dmp x y = (u, a, r) \<Longrightarrow> 0 \<le> u \<and> 0 \<le> a \<and> 0 \<le> r"
  unfolding diffLines_def
  using countLinesStr_nonneg [of x] countLinesStr_nonneg [of y]
        diffLines_loop_nonneg [of 0 0 0 "dmp x y" u a r]
  by (auto split: if_splits)

lemma contribution_bounds:
  "0 \<le> agentAdded (spec_contribution dmp b c m)
   \<and> agentAdded (spec_contribution dmp b c m) \<le> commitAdded (spec_contribution dmp b c m)"
proof -
  obtain u1 ca cr where 1: "diffLines dmp b m = (u1, ca, cr)"
    by (cases "diffLines dmp b m") blast
  obtain u2 ha hr where 2: "diffLines dmp c m = (u2, ha, hr)"
    by (cases "diffLines dmp c m") blast
  from diffLines_nonneg [OF 1] diffLines_nonneg [OF 2] 1 2 show ?thesis
    by (simp add: spec_contribution_def Let_def)
qed

lemma sum_list_bounds:
  "(\<And>x. 0 \<le> f x \<and> f x \<le> (g x :: int)) \<Longrightarrow>
   0 \<le> (\<Sum>x\<leftarrow>xs. f x) \<and> (\<Sum>x\<leftarrow>xs. f x) \<le> (\<Sum>x\<leftarrow>xs. g x)"
  by (induction xs) (auto intro: add_mono)

lemma totals_bounds:
  "0 \<le> totalAgentAdded (attributeFiles dmp bt ct mt fs zeroTotals)
   \<and> totalAgentAdded (attributeFiles dmp bt ct mt fs zeroTotals)
       \<le> totalCommitAdded (attributeFiles dmp bt ct mt fs zeroTotals)"
  using sum_list_bounds [of "\<lambda>f. agentAdded (fileContribution dmp bt ct mt f)"
          "\<lambda>f. commitAdded (fileContribution dmp bt ct mt f)" "changedFiles bt mt fs"]
        contribution_bounds
  by (simp add: attributeFiles_sums zeroTotals_def fileContribution_def)

lemma countLinesInText_eq: "countLinesInText t = countLinesStr t"
  by (simp add: countLinesInText_def countLinesStr_def)

lemma Count_newline_append: "Count_newline (s @ t) = Count_newline s + Count_newline t"
  by (simp add: Count_newline_def)

lemma HasSuffix_newline: "HasSuffix s [newline] = (s \<noteq> [] \<and> last s = newline)"
proof (cases s rule: rev_cases)
  case Nil
  then show ?thesis by (simp add: HasSuffix_def)
next
  case (snoc ys y)
  then show ?thesis by (simp add: HasSuffix_def)
qed

lemma countLinesStr_nonempty:
  "s \<noteq> [] \<Longrightarrow>
   countLinesStr s = Count_newline s + (if HasSuffix s [newline] then 0 else 1)"
  by (simp add: countLinesStr_def Let_def)

lemma HasSuffix_append:
  "s \<noteq> [] \<Longrightarrow> HasSuffix (t @ s) [newline] = HasSuffix s [newline]"
  by (simp add: HasSuffix_newline)

lemma countLinesStr_append:
  assumes "HasSuffix t [newline]"
  shows "countLinesStr (t @ s) = countLinesStr t + countLinesStr s"
proof (cases "s = []")
  case True
  then show ?thesis by (simp add: countLinesStr_empty)
next
  case False
  from assms have t: "t \<noteq> []" by (simp add: HasSuffix_newline)
  from False have ts: "t @ s \<noteq> []" by simp
  have 1: "countLinesStr t = Count_newline t"
    using assms by (simp add: countLinesStr_nonempty [OF t])
  have 2: "countLinesStr (t @ s)
      = Count_newline t + Count_newline s + (if HasSuffix s [newline] then 0 else 1)"
    by (simp only: countLinesStr_nonempty [OF ts] HasSuffix_append [OF False]
          Count_newline_append)
  from 1 2 show ?thesis
    by (simp only: countLinesStr_nonempty [OF False])
qed

lemma lineAligned_Cons_empty: "lineAligned ([] # ts) = lineAligned ts"
  by (simp add: lineAligned_def)

lemma concat_all_empty: "filter (\<lambda>t. t \<noteq> []) ts = [] \<Longrightarrow> concat ts = []"
  by (simp add: filter_empty_conv)

lemma lineAligned_Cons:
  assumes "t \<noteq> []" "lineAligned (t # ts)"
  shows "lineAligned ts \<and> (concat ts \<noteq> [] \<longrightarrow> HasSuffix t [newline])"
proof -
  let ?fs = "filter (\<lambda>t. t \<noteq> []) ts"
  from assms have al: "list_all (\<lambda>t. HasSuffix t [newline]) (butlast (t # ?fs))"
    unfolding lineAligned_def by simp
  show ?thesis
  proof (cases "?fs = []")
    case True
    then have "concat ts = []" by (rule concat_all_empty)
    moreover from True have "lineAligned ts" unfolding lineAligned_def by simp
    ultimately show ?thesis by blast
  next
    case False
    then have "butlast (t # ?fs) = t # butlast ?fs" by simp
    with al have "HasSuffix t [newline]" "list_all (\<lambda>t. HasSuffix t [newline]) (butlast ?fs)"
      by simp_all
    then show ?thesis unfolding lineAligned_def by blast
  qed
qed

lemma lines_of_aligned:
  "lineAligned ts \<Longrightarrow> (\<Sum>t\<leftarrow>ts. countLinesInText t) = countLinesStr (concat ts)"
proof (induction ts)
  case Nil
  then show ?case by (simp add: countLinesStr_empty)
next
  case (Cons t ts)
  show ?case
  proof (cases "t = []")
    case True
    with Cons show ?thesis
      by (simp add: lineAligned_Cons_empty countLinesInText_eq countLinesStr_empty)
  next
    case False
    from lineAligned_Cons [OF False Cons.prems]
    have al: "lineAligned ts" and sf: "concat ts \<noteq> [] \<longrightarrow> HasSuffix t [newline]" by simp_all
    show ?thesis
    proof (cases "concat ts = []")
      case True
      then have z: "(\<Sum>t\<leftarrow>ts. countLinesInText t) = 0"
        using Cons.IH [OF al] by (simp only: countLinesStr_empty)
      from True have c: "concat (t # ts) = t" by simp
      have "(\<Sum>t\<leftarrow>t # ts. countLinesInText t) = countLinesStr t"
        using z by (simp add: countLinesInText_eq)
      then show ?thesis by (simp only: c)
    next
      case False
      with sf have "HasSuffix t [newline]" by simp
      with Cons.IH [OF al] show ?thesis
        by (simp add: countLinesInText_eq countLinesStr_append)
    qed
  qed
qed

lemma diffLines_loop_sums:
  "diffLines_loop ds (u, a, r) =
     (u + linesOf DiffEqual ds, a + linesOf DiffInsert ds, r + linesOf DiffDelete ds)"
proof (induction ds arbitrary: u a r)
  case Nil
  then show ?case by (simp add: linesOf_def)
next
  case (Cons d ds)
  then show ?case
    by (cases "Type d") (simp_all add: linesOf_def Let_def)
qed

lemma linesOf_Cons:
  "linesOf op (d # ds) = (if Type d = op then countLinesInText (Text d) else 0) + linesOf op ds"
  by (simp add: linesOf_def)

lemma sideTexts_Cons:
  "sideTexts other (d # ds) = (if Type d \<noteq> other then [Text d] else []) @ sideTexts other ds"
  by (simp add: sideTexts_def)

lemma lines_of_first_text:
  "(\<Sum>t\<leftarrow>sideTexts DiffInsert ds. countLinesInText t) = linesOf DiffEqual ds + linesOf DiffDelete ds"
proof (induction ds)
  case Nil
  show ?case by (simp add: sideTexts_def linesOf_def)
next
  case (Cons d ds)
  then show ?case
    by (cases "Type d") (simp_all add: linesOf_Cons sideTexts_Cons)
qed

lemma lines_of_second_text:
  "(\<Sum>t\<leftarrow>sideTexts DiffDelete ds. countLinesInText t) = linesOf DiffEqual ds + linesOf DiffInsert ds"
proof (induction ds)
  case Nil
  show ?case by (simp add: sideTexts_def linesOf_def)
next
  case (Cons d ds)
  then show ?case
    by (cases "Type d") (simp_all add: linesOf_Cons sideTexts_Cons)
qed

lemma lineBasedDiff_exists:
  "lineBasedDiff a b [\<lparr>Type = DiffDelete, Text = a\<rparr>, \<lparr>Type = DiffInsert, Text = b\<rparr>]"
  by (simp add: lineBasedDiff_def sideTexts_def lineAligned_def)

subsection \<open>Claims\<close>

text \<open>
  Claim C1. For a non-empty \<open>filesTouched\<close>, \<open>CalculateAttribution\<close> returns a result
  whose \<open>AgentLines\<close>, \<open>HumanAdded\<close>, \<open>HumanModified\<close> and \<open>HumanRemoved\<close> (and the
  running total of commit additions) are the sums, over the touched files whose base
  content differs from the committed content, of the per-file contributions of the
  specification: \<open>agentAdded = max(0, commitAdded - humanAdded)\<close>,
  \<open>humanModified = min(humanAdded, humanRemoved)\<close>,
  \<open>pureHumanAdded = humanAdded - humanModified\<close>, and the human-removed contribution
  \<open>commitRemoved - max(0, linesIn(base) - linesIn(checkpoint))\<close> clamped to
  \<open>[0, humanRemoved - humanModified]\<close>. Files whose base content equals the committed
  content are left out of every sum: they contribute nothing.
\<close>

theorem CalculateAttribution_fields:
  assumes "filesTouched \<noteq> []"
  shows "\<exists>r. CalculateAttribution dmp now bt ct mt filesTouched = Some r
     \<and> AgentLines r = (\<Sum>f\<leftarrow>changedFiles bt mt filesTouched. agentAdded (fileContribution dmp bt ct mt f))
     \<and> HumanAdded r = (\<Sum>f\<leftarrow>changedFiles bt mt filesTouched. pureHumanAdded (fileContribution dmp bt ct mt f))
     \<and> HumanModified r = (\<Sum>f\<leftarrow>changedFiles bt mt filesTouched. humanModified (fileContribution dmp bt ct mt f))
     \<and> HumanRemoved r = (\<Sum>f\<leftarrow>changedFiles bt mt filesTouched. actualHumanRemoved (fileContribution dmp bt ct mt f))
     \<and> totalCommitAdded (attributeFiles dmp bt ct mt filesTouched zeroTotals)
         = (\<Sum>f\<leftarrow>changedFiles bt mt filesTouched. commitAdded (fileContribution dmp bt ct mt f))"
  using assms
  by (simp add: CalculateAttribution_def Let_def attributeFiles_sums zeroTotals_def)

theorem CalculateAttribution_fields_witness:
  "[''f''] \<noteq> [] \<and>
   (\<exists>r. CalculateAttribution ex_dmp 0 (ex_tree ex_base) (ex_tree ex_checkpoint)
          (ex_tree ex_committed) [''f''] = Some r
      \<and> AgentLines r = 1 \<and> HumanAdded r = 0 \<and> HumanModified r = 1 \<and> HumanRemoved r = 0)"
  using CalculateAttribution_fields [of "[''f'']" ex_dmp 0 "ex_tree ex_base" "ex_tree ex_checkpoint"
          "ex_tree ex_committed"]
  by (auto simp add: changedFiles_def fileContribution_def spec_contribution_def clamp_def ex_defs)

text \<open>
  Claim C3, as the code has it. For a non-empty \<open>filesTouched\<close>, \<open>TotalCommitted\<close> is the
  total of commit additions, or the total of agent additions when that is zero;
  \<open>AgentPercentage\<close> is 0 when \<open>TotalCommitted\<close> is zero and otherwise the \<open>float64\<close>
  value of \<open>float64(AgentLines) / float64(TotalCommitted) * 100\<close>, each operation rounded to
  the nearest double, which differs from \<open>100 * AgentLines / TotalCommitted\<close> by at most
  \<open>600 / 2 ^ 53\<close>; and \<open>AgentPercentage\<close> lies between 0 and 100.
\<close>

theorem CalculateAttribution_percentage:
  assumes "filesTouched \<noteq> []"
  shows "\<exists>r. CalculateAttribution dmp now bt ct mt filesTouched = Some r
     \<and> TotalCommitted r =
         (let tot = attributeFiles dmp bt ct mt filesTouched zeroTotals
          in if totalCommitAdded tot = 0 then totalAgentAdded tot else totalCommitAdded tot)
     \<and> AgentLines r = totalAgentAdded (attributeFiles dmp bt ct mt filesTouched zeroTotals)
     \<and> AgentPercentage r =
         (if TotalCommitted r = 0 then 0
          else fmul (fdiv (float64 (AgentLines r)) (float64 (TotalCommitted r))) 100)
     \<and> (TotalCommitted r \<noteq> 0 \<longrightarrow>
          \<bar>AgentPercentage r - 100 * real_of_int (AgentLines r) / real_of_int (TotalCommitted r)\<bar>
            \<le> 600 / 2 ^ 53)
     \<and> 0 \<le> AgentPercentage r \<and> AgentPercentage r \<le> 100"
proof -
  let ?tot = "attributeFiles dmp bt ct mt filesTouched zeroTotals"
  let ?a = "totalAgentAdded ?tot"
  let ?c = "totalCommitAdded ?tot"
  have b: "0 \<le> ?a \<and> ?a \<le> ?c" by (rule totals_bounds)
  show ?thesis
  proof (cases "?c = 0")
    case True
    with b have "?a = 0" by simp
    with True assms show ?thesis
      by (simp add: CalculateAttribution_def Let_def)
  next
    case False
    with b have pos: "0 < ?c" by simp
    from b pos have bounds: "0 \<le> fmul (fdiv (float64 ?a) (float64 ?c)) 100
        \<and> fmul (fdiv (float64 ?a) (float64 ?c)) 100 \<le> 100"
      by (intro percentage_bounds) simp_all
    from b pos have acc: "\<bar>fmul (fdiv (float64 ?a) (float64 ?c)) 100
        - 100 * real_of_int ?a / real_of_int ?c\<bar> \<le> 600 / 2 ^ 53"
      by (intro percentage_accuracy) simp_all
    from False pos assms bounds acc show ?thesis
      by (simp add: CalculateAttribution_def Let_def)
  qed
qed

theorem CalculateAttribution_percentage_witness:
  "[''f''] \<noteq> [] \<and>
   (\<exists>r. CalculateAttribution ex_dmp 0 (ex_tree ex_base) (ex_tree ex_checkpoint)
          (ex_tree ex_committed) [''f''] = Some r
      \<and> TotalCommitted r = 2 \<and> AgentLines r = 1
      \<and> AgentPercentage r = fmul (fdiv (float64 1) (float64 2)) 100
      \<and> \<bar>AgentPercentage r - 50\<bar> \<le> 600 / 2 ^ 53)"
  using CalculateAttribution_percentage [of "[''f'']" ex_dmp 0 "ex_tree ex_base" "ex_tree ex_checkpoint"
          "ex_tree ex_committed"]
  by (auto simp add: attributeFile_def zeroTotals_def ex_defs)

text \<open>
  The claim as stated fails on ordinary input: with 7 agent lines of 25 committed, the
  quotient \<open>7 / 25\<close> rounds to \<open>1261007895663739 / 2 ^ 52\<close> and its product with 100 to
  \<open>7881299347898369 / 2 ^ 48\<close> (printed 28.000000000000004), which is not
  \<open>100 * 7 / 25 = 28\<close>.
\<close>

theorem CalculateAttribution_percentage_inexact:
  "map_option AgentLines
     (CalculateAttribution prefix_dmp 0 None (ex_tree (blank_lines 7)) (ex_tree (blank_lines 25))
        [''f'']) = Some 7
   \<and> map_option TotalCommitted
     (CalculateAttribution prefix_dmp 0 None (ex_tree (blank_lines 7)) (ex_tree (blank_lines 25))
        [''f'']) = Some 25
   \<and> map_option AgentPercentage
     (CalculateAttribution prefix_dmp 0 None (ex_tree (blank_lines 7)) (ex_tree (blank_lines 25))
        [''f'']) = Some (7881299347898369 / 281474976710656)
   \<and> (7881299347898369 / 281474976710656 :: real) \<noteq> 100 * real_of_int 7 / real_of_int 25"
proof -
  have c25: "getFileContent (ex_tree (blank_lines 25)) ''f'' = blank_lines 25"
    and c7: "getFileContent (ex_tree (blank_lines 7)) ''f'' = blank_lines 7"
    by (simp_all add: getFileContent_def ex_tree_def blank_lines_def newline_def)
  have c0: "getFileContent None ''f'' = []" by (simp add: getFileContent_def)
  have l7: "countLinesStr (blank_lines 7) = 7"
    by (simp add: blank_lines_def countLinesStr_newlines)
  have d1: "diffLines prefix_dmp [] (blank_lines 25) = (0, 25, 0)"
    by (simp add: diffLines_def blank_lines_def countLinesStr_newlines)
  have dr: "drop (length (blank_lines 7)) (blank_lines 25) = blank_lines 18"
    by (simp add: blank_lines_def)
  have ne: "blank_lines 7 \<noteq> blank_lines 25" "blank_lines 7 \<noteq> []" "blank_lines 25 \<noteq> []"
    by (simp_all add: blank_lines_def)
  have d2: "diffLines prefix_dmp (blank_lines 7) (blank_lines 25) = (7, 18, 0)"
    using ne by (simp add: diffLines_def prefix_dmp_def dr countLinesInText_eq)
      (simp add: blank_lines_def countLinesStr_newlines)
  have tot: "attributeFiles prefix_dmp None (ex_tree (blank_lines 7)) (ex_tree (blank_lines 25))
      [''f''] zeroTotals
    = \<lparr>totalAgentAdded = 7, totalHumanAdded = 18, totalHumanModified = 0,
       totalHumanRemoved = 0, totalCommitAdded = 25\<rparr>"
    using ne by (simp add: attributeFile_def c0 c25 c7 d1 d2 l7 zeroTotals_def Let_def
        countLinesStr_empty)
  have "CalculateAttribution prefix_dmp 0 None (ex_tree (blank_lines 7)) (ex_tree (blank_lines 25))
      [''f'']
    = Some \<lparr>CalculatedAt = 0, AgentLines = 7, HumanAdded = 18, HumanModified = 0,
        HumanRemoved = 0, TotalCommitted = 25,
        AgentPercentage = 7881299347898369 / 281474976710656\<rparr>"
    unfolding CalculateAttribution_def tot by (simp add: percentage_7_25)
  then show ?thesis by simp
qed

text \<open>
  Claim C7, as the code has it. \<open>CalculateAttribution\<close> has no error result; it returns
  nil exactly when \<open>filesTouched\<close> is empty; and with a non-empty \<open>filesTouched\<close> whose
  files are all absent from both the base tree and the committed tree (a nil tree, or a
  file missing from the tree, read as empty content), in particular with three nil
  trees, it returns a result with \<open>TotalCommitted = 0\<close>.
\<close>

theorem CalculateAttribution_degenerate:
  "(CalculateAttribution dmp now bt ct mt filesTouched = None) = (filesTouched = [])
   \<and> (filesTouched \<noteq> [] \<longrightarrow>
        (\<forall>f \<in> set filesTouched. absent bt f \<and> absent mt f) \<longrightarrow>
        (\<exists>r. CalculateAttribution dmp now bt ct mt filesTouched = Some r \<and> TotalCommitted r = 0))
   \<and> (filesTouched \<noteq> [] \<longrightarrow>
        (\<exists>r. CalculateAttribution dmp now None None None filesTouched = Some r \<and> TotalCommitted r = 0))"
proof -
  have 1: "(CalculateAttribution dmp now bt ct mt filesTouched = None) = (filesTouched = [])"
    by (simp add: CalculateAttribution_def Let_def)
  have empty: "getFileContent t f = []" if "absent t f" for t f
    using that by (simp add: absent_def getFileContent_def split: option.splits)
  have same: "changedFiles b m filesTouched = []"
    if "\<forall>f \<in> set filesTouched. absent b f \<and> absent m f" for b m
    using that by (simp add: changedFiles_def empty)
  have 2: "\<exists>r. CalculateAttribution dmp now b c m filesTouched = Some r \<and> TotalCommitted r = 0"
    if "filesTouched \<noteq> []"
      and "\<forall>f \<in> set filesTouched. absent b f \<and> absent m f" for b c m
    using that same [OF that(2)]
    by (simp add: CalculateAttribution_def Let_def attributeFiles_sums zeroTotals_def)
  have 3: "\<forall>f \<in> set filesTouched. absent None f \<and> absent None f"
    by (simp add: absent_def)
  from 1 2 [of bt mt ct] 2 [of None None None, OF _ 3] show ?thesis by blast
qed

theorem CalculateAttribution_degenerate_witness:
  "[''file.txt''] \<noteq> [] \<and>
   (\<exists>r. CalculateAttribution ex_dmp 0 None None None [''file.txt''] = Some r \<and> TotalCommitted r = 0)
   \<and> absent (ex_tree ex_base) ''file.txt'' \<and> absent None ''file.txt''
   \<and> (\<exists>r. CalculateAttribution ex_dmp 0 (ex_tree ex_base) (ex_tree ex_checkpoint) None [''file.txt'']
          = Some r \<and> TotalCommitted r = 0)
   \<and> CalculateAttribution ex_dmp 0 None None None [] = None"
proof -
  have a: "\<forall>f \<in> set [''file.txt'']. absent (ex_tree ex_base) f \<and> absent None f"
    by (simp add: absent_def ex_tree_def)
  from CalculateAttribution_degenerate [of ex_dmp 0 None None None "[''file.txt'']"]
       CalculateAttribution_degenerate [of ex_dmp 0 "ex_tree ex_base" "ex_tree ex_checkpoint" None
         "[''file.txt'']"]
       CalculateAttribution_degenerate [of ex_dmp 0 None None None "[]"] a
  show ?thesis by simp
qed

text \<open>
  The claim as stated fails when some tree is nil, or misses the file, and the committed
  tree has it: with nil base and checkpoint trees and a three-line file in the committed
  tree, the three lines are committed additions.
\<close>

theorem CalculateAttribution_nil_base_counts:
  "[''f''] \<noteq> [] \<and> absent None ''f''
   \<and> map_option TotalCommitted
        (CalculateAttribution ex_dmp 0 None None (ex_tree ex_committed) [''f'']) = Some 3"
  by (simp add: CalculateAttribution_def attributeFile_def zeroTotals_def absent_def ex_defs)

text \<open>
  Claim C8. For every string \<open>a\<close>, \<open>diffLines(a, a) = (linesIn(a), 0, 0)\<close>,
  \<open>diffLines("", a) = (0, linesIn(a), 0)\<close> and \<open>diffLines(a, "") = (0, 0, linesIn(a))\<close>,
  whatever the diff library returns, where \<open>linesIn\<close> is \<open>countLinesStr\<close>; and
  \<open>countLinesStr("") = 0\<close>, \<open>countLinesStr("x") = 1\<close>, \<open>countLinesStr("a\nb\n") = 2\<close>,
  \<open>countLinesStr("a\nb") = 2\<close>.
\<close>

theorem diffLines_edge_cases:
  "diffLines dmp a a = (countLinesStr a, 0, 0)
   \<and> diffLines dmp [] a = (0, countLinesStr a, 0)
   \<and> diffLines dmp a [] = (0, 0, countLinesStr a)
   \<and> countLinesStr [] = 0
   \<and> countLinesStr ''x'' = 1
   \<and> countLinesStr (''a'' @ [newline] @ ''b'' @ [newline]) = 2
   \<and> countLinesStr (''a'' @ [newline] @ ''b'') = 2"
proof -
  have 1: "diffLines dmp a a = (countLinesStr a, 0, 0)"
    by (simp add: diffLines_def)
  have 2: "diffLines dmp [] a = (0, countLinesStr a, 0)"
    by (simp add: diffLines_def countLinesStr_empty)
  have 3: "diffLines dmp a [] = (0, 0, countLinesStr a)"
    by (simp add: diffLines_def countLinesStr_empty)
  have 4: "countLinesStr ''x'' = 1"
    by (simp add: countLinesStr_def Count_newline_def HasSuffix_def newline_def)
  have 5: "countLinesStr (''a'' @ [newline] @ ''b'' @ [newline]) = 2"
    by (simp add: countLinesStr_def Count_newline_def HasSuffix_def newline_def)
  have 6: "countLinesStr (''a'' @ [newline] @ ''b'') = 2"
    by (simp add: countLinesStr_def Count_newline_def HasSuffix_def newline_def)
  from 1 2 3 4 5 6 show ?thesis
    by (simp add: countLinesStr_empty)
qed

text \<open>
  Claim C9. For all strings \<open>a\<close> and \<open>b\<close>, the triple \<open>(unchanged, added, removed)\<close>
  returned by \<open>diffLines(a, b)\<close> conserves line counts:
  \<open>unchanged + added = countLinesStr(b)\<close> and \<open>unchanged + removed = countLinesStr(a)\<close>,
  the diff library being line-based on the inputs on which \<open>diffLines\<close> calls it.
\<close>

theorem diffLines_conserves_lines:
  assumes "a \<noteq> b \<and> a \<noteq> [] \<and> b \<noteq> [] \<longrightarrow> lineBasedDiff a b (dmp a b)"
    and "diffLines dmp a b = (unchanged, added, removed)"
  shows "unchanged + added = countLinesStr b \<and> unchanged + removed = countLinesStr a"
proof (cases "a \<noteq> b \<and> a \<noteq> [] \<and> b \<noteq> []")
  case False
  with assms(2) show ?thesis
    by (auto simp: diffLines_def countLinesStr_empty split: if_splits)
next
  case True
  with assms(1) have lb: "lineBasedDiff a b (dmp a b)" by simp
  let ?ds = "dmp a b"
  from True assms(2) have res: "unchanged = linesOf DiffEqual ?ds" "added = linesOf DiffInsert ?ds"
      "removed = linesOf DiffDelete ?ds"
    by (simp_all add: diffLines_def diffLines_loop_sums)
  from lb have "countLinesStr a = (\<Sum>t\<leftarrow>sideTexts DiffInsert ?ds. countLinesInText t)"
    using lines_of_aligned [of "sideTexts DiffInsert ?ds"] by (simp add: lineBasedDiff_def)
  moreover from lb have "countLinesStr b = (\<Sum>t\<leftarrow>sideTexts DiffDelete ?ds. countLinesInText t)"
    using lines_of_aligned [of "sideTexts DiffDelete ?ds"] by (simp add: lineBasedDiff_def)
  ultimately show ?thesis using res by (simp add: lines_of_first_text lines_of_second_text)
qed

theorem diffLines_conserves_lines_witness:
  "(ex_checkpoint \<noteq> ex_committed \<and> ex_checkpoint \<noteq> [] \<and> ex_committed \<noteq> [])
   \<and> lineBasedDiff ex_checkpoint ex_committed (ex_dmp ex_checkpoint ex_committed)
   \<and> diffLines ex_dmp ex_checkpoint ex_committed = (2, 1, 1)
   \<and> (2::int) + 1 = countLinesStr ex_committed \<and> (2::int) + 1 = countLinesStr ex_checkpoint"
proof -
  have h1: "lineBasedDiff ex_checkpoint ex_committed (ex_dmp ex_checkpoint ex_committed)"
    by (simp add: lineBasedDiff_def sideTexts_def lineAligned_def ex_defs)
  have h2: "diffLines ex_dmp ex_checkpoint ex_committed = (2, 1, 1)"
    by (simp add: ex_defs)
  have h3: "ex_checkpoint \<noteq> ex_committed \<and> ex_checkpoint \<noteq> [] \<and> ex_committed \<noteq> []"
    by (simp add: ex_defs)
  from diffLines_conserves_lines [of ex_checkpoint ex_committed ex_dmp 2 1 1] h1 h2 h3
  show ?thesis by simp
qed

section \<open>Properties of the self-modification estimate\<close>























section \<open>Properties of the shadow branch migration\<close>

lemma length_Hash_String: "length (Hash_String h) = 40"
  by (simp add: Hash_String_def)

lemmas migrate_defs = migrateShadowBranchIfNeeded_def Reference_def SetReference_def
  RemoveReference_def Let_def

lemma ex_state_stale: "BaseCommit ex_state \<noteq> Hash_String h"
proof
  assume "BaseCommit ex_state = Hash_String h"
  then have "length (BaseCommit ex_state) = 40" by (simp only: length_Hash_String)
  then show False by (simp add: ex_state_def)
qed

lemma ex_names_differ: "Hash_String h @ ''-wt'' \<noteq> ''old-wt''"
proof
  assume "Hash_String h @ ''-wt'' = ''old-wt''"
  then have "length (Hash_String h @ ''-wt'') = length ''old-wt''" by (rule arg_cong)
  then show False by (simp add: length_Hash_String)
qed

lemmas ex_migrate_defs = ex_nameFor_def ex_state_def ex_repo_def ex_repo_readonly_def
  NewBranchReferenceName_def

text \<open>
  Claim C4, as the code has it. Whenever the recorded \<open>BaseCommit\<close> is non-empty and
  differs from the live HEAD: if the old shadow ref does not exist, the call returns
  \<open>(true, nil)\<close>, sets \<open>state.BaseCommit\<close> to the live HEAD and leaves the repository
  untouched; if it exists and creating the new ref fails, the call returns \<open>false\<close> with
  an error and leaves the state and the repository as they were; if it exists and the
  new ref is created, the call returns \<open>(true, nil)\<close> and sets \<open>state.BaseCommit\<close> to the
  live HEAD, and then, when the new ref name differs from the old one, the new ref points
  at the hash the old ref pointed to and the old ref is deleted, or left in place when
  its deletion fails; when the two names coincide, the one ref is deleted, or left
  pointing at its hash when the deletion fails. No other ref changes.
\<close>

theorem migrate_when_stale:
  assumes "BaseCommit s \<noteq> []" and "head rp = Inr h" and "BaseCommit s \<noteq> Hash_String h"
  shows "let out = migrateShadowBranchIfNeeded nameFor rp (Some s);
             oldRef = NewBranchReferenceName (nameFor (BaseCommit s) (WorktreeID s));
             newRef = NewBranchReferenceName (nameFor (Hash_String h) (WorktreeID s))
         in (case refs rp oldRef of
               None \<Rightarrow>
                 migrated out \<and> error out = None
                 \<and> state out = Some (s\<lparr>BaseCommit := Hash_String h\<rparr>) \<and> repo out = rp
             | Some oldHash \<Rightarrow>
                 (case setReferenceErr rp of
                    Some e \<Rightarrow>
                      \<not> migrated out
                      \<and> error out = Some (FailedToCreateShadowBranch
                                            (nameFor (Hash_String h) (WorktreeID s)) e)
                      \<and> state out = Some s \<and> repo out = rp
                  | None \<Rightarrow>
                      migrated out \<and> error out = None
                      \<and> state out = Some (s\<lparr>BaseCommit := Hash_String h\<rparr>)
                      \<and> head (repo out) = head rp
                      \<and> (\<forall>name. name \<noteq> oldRef \<and> name \<noteq> newRef \<longrightarrow>
                            refs (repo out) name = refs rp name)
                      \<and> (newRef \<noteq> oldRef \<longrightarrow>
                            refs (repo out) newRef = Some oldHash
                            \<and> refs (repo out) oldRef =
                                (case removeReferenceErr rp of
                                   None \<Rightarrow> None | Some e \<Rightarrow> Some oldHash))
                      \<and> (newRef = oldRef \<longrightarrow>
                            refs (repo out) newRef =
                              (case removeReferenceErr rp of
                                 None \<Rightarrow> None | Some e \<Rightarrow> Some oldHash))))"
  using assms
  by (auto simp: migrate_defs split: option.splits)

theorem migrate_when_stale_witness:
  "BaseCommit ex_state \<noteq> [] \<and> head ex_repo = Inr 1 \<and> BaseCommit ex_state \<noteq> Hash_String 1
   \<and> migrated (migrateShadowBranchIfNeeded ex_nameFor ex_repo (Some ex_state))
   \<and> error (migrateShadowBranchIfNeeded ex_nameFor ex_repo (Some ex_state)) = None
   \<and> state (migrateShadowBranchIfNeeded ex_nameFor ex_repo (Some ex_state))
       = Some (ex_state\<lparr>BaseCommit := Hash_String 1\<rparr>)
   \<and> refs (repo (migrateShadowBranchIfNeeded ex_nameFor ex_repo (Some ex_state)))
        ''refs/heads/entire/old-wt'' = None
   \<and> refs (repo (migrateShadowBranchIfNeeded ex_nameFor ex_repo (Some ex_state)))
        (''refs/heads/entire/'' @ Hash_String 1 @ ''-wt'') = Some 7"
proof -
  have h1: "BaseCommit ex_state \<noteq> []" by (simp add: ex_state_def)
  have h2: "head ex_repo = Inr 1" by (simp add: ex_repo_def)
  have h3: "BaseCommit ex_state \<noteq> Hash_String 1" by (rule ex_state_stale)
  from migrate_when_stale [OF h1 h2 h3, of ex_nameFor] h1 h2 h3 ex_names_differ [of 1]
  show ?thesis
    by (simp add: ex_migrate_defs Let_def)
qed

text \<open>
  The claim as stated fails where the storer cannot write the new ref: the old shadow
  ref exists, the recorded base commit differs from the live HEAD, and the call returns
  \<open>false\<close> with an error, the state keeping its old base commit.
\<close>

theorem migrate_set_reference_fails:
  "BaseCommit ex_state \<noteq> [] \<and> head ex_repo_readonly = Inr 1
   \<and> BaseCommit ex_state \<noteq> Hash_String 1
   \<and> refs ex_repo_readonly
        (NewBranchReferenceName (ex_nameFor (BaseCommit ex_state) (WorktreeID ex_state))) = Some 7
   \<and> \<not> (migrated (migrateShadowBranchIfNeeded ex_nameFor ex_repo_readonly (Some ex_state))
         \<and> error (migrateShadowBranchIfNeeded ex_nameFor ex_repo_readonly (Some ex_state)) = None
         \<and> state (migrateShadowBranchIfNeeded ex_nameFor ex_repo_readonly (Some ex_state))
             = Some (ex_state\<lparr>BaseCommit := Hash_String 1\<rparr>))"
proof -
  have h3: "BaseCommit ex_state \<noteq> Hash_String 1" by (rule ex_state_stale)
  have "\<not> migrated (migrateShadowBranchIfNeeded ex_nameFor ex_repo_readonly (Some ex_state))"
    using h3 by (simp add: migrate_defs ex_migrate_defs)
  with h3 show ?thesis by (simp add: ex_migrate_defs)
qed

text \<open>
  Claim C5, as the code has it. For a session state whose recorded \<open>BaseCommit\<close> is
  non-empty and differs from the live HEAD, if the first call returns no error, then it
  returns \<open>migrated = true\<close>, a second call made while HEAD is unchanged returns
  \<open>migrated = false\<close> with no error and changes nothing, and after the first call the
  shadow branch name derived from the state equals the name derived from the live HEAD
  and the worktree.
\<close>

theorem migrate_twice:
  assumes "BaseCommit s \<noteq> []" and "head rp = Inr h" and "BaseCommit s \<noteq> Hash_String h"
    and "error (migrateShadowBranchIfNeeded nameFor rp (Some s)) = None"
    and "head rp2 = Inr h"
  shows "let first = migrateShadowBranchIfNeeded nameFor rp (Some s);
             second = migrateShadowBranchIfNeeded nameFor rp2 (state first)
         in migrated first \<and> \<not> migrated second \<and> error second = None
            \<and> state second = state first \<and> repo second = rp2
            \<and> (case state first of
                  None \<Rightarrow> False
                | Some s1 \<Rightarrow>
                    nameFor (BaseCommit s1) (WorktreeID s1) = nameFor (Hash_String h) (WorktreeID s))"
proof -
  let ?first = "migrateShadowBranchIfNeeded nameFor rp (Some s)"
  have st: "migrated ?first \<and> state ?first = Some (s\<lparr>BaseCommit := Hash_String h\<rparr>)"
    using assms(1-4) by (auto simp: migrate_defs split: option.splits sum.splits)
  have "BaseCommit (s\<lparr>BaseCommit := Hash_String h\<rparr>) = Hash_String h" by simp
  then have snd: "migrateShadowBranchIfNeeded nameFor rp2 (Some (s\<lparr>BaseCommit := Hash_String h\<rparr>))
      = \<lparr>migrated = False, error = None, state = Some (s\<lparr>BaseCommit := Hash_String h\<rparr>),
         repo = rp2, stderr = []\<rparr>"
    using assms(5) by (simp add: migrateShadowBranchIfNeeded_def Let_def)
  from st snd show ?thesis by (simp add: Let_def)
qed

theorem migrate_twice_witness:
  "BaseCommit ex_state \<noteq> [] \<and> head ex_repo = Inr 1 \<and> BaseCommit ex_state \<noteq> Hash_String 1
   \<and> error (migrateShadowBranchIfNeeded ex_nameFor ex_repo (Some ex_state)) = None
   \<and> head (repo (migrateShadowBranchIfNeeded ex_nameFor ex_repo (Some ex_state))) = Inr 1
   \<and> migrated (migrateShadowBranchIfNeeded ex_nameFor ex_repo (Some ex_state))
   \<and> \<not> migrated (migrateShadowBranchIfNeeded ex_nameFor
                   (repo (migrateShadowBranchIfNeeded ex_nameFor ex_repo (Some ex_state)))
                   (state (migrateShadowBranchIfNeeded ex_nameFor ex_repo (Some ex_state))))"
proof -
  have h1: "BaseCommit ex_state \<noteq> []" by (simp add: ex_state_def)
  have h2: "head ex_repo = Inr 1" by (simp add: ex_repo_def)
  have h3: "BaseCommit ex_state \<noteq> Hash_String 1" by (rule ex_state_stale)
  have h4: "error (migrateShadowBranchIfNeeded ex_nameFor ex_repo (Some ex_state)) = None"
    using h3 by (simp add: migrate_defs ex_migrate_defs)
  have h5: "head (repo (migrateShadowBranchIfNeeded ex_nameFor ex_repo (Some ex_state))) = Inr 1"
    using h3 by (simp add: migrate_defs ex_migrate_defs)
  from migrate_twice [OF h1 h2 h3 h4 h5] h1 h2 h3 h4 h5 show ?thesis
    by (simp add: Let_def)
qed

text \<open>
  The claim as stated fails in the same situation: with a storer that cannot write the
  new ref, the first of the two calls returns \<open>migrated = false\<close>, HEAD is unchanged, and
  the name derived from the state after the call is still the old one.
\<close>

theorem migrate_twice_set_reference_fails:
  "BaseCommit ex_state \<noteq> [] \<and> head ex_repo_readonly = Inr 1
   \<and> BaseCommit ex_state \<noteq> Hash_String 1
   \<and> head (repo (migrateShadowBranchIfNeeded ex_nameFor ex_repo_readonly (Some ex_state))) = Inr 1
   \<and> migrated (migrateShadowBranchIfNeeded ex_nameFor ex_repo_readonly (Some ex_state)) = False
   \<and> state (migrateShadowBranchIfNeeded ex_nameFor ex_repo_readonly (Some ex_state))
       = Some ex_state
   \<and> ex_nameFor (BaseCommit ex_state) (WorktreeID ex_state)
       \<noteq> ex_nameFor (Hash_String 1) (WorktreeID ex_state)"
proof -
  have h3: "BaseCommit ex_state \<noteq> Hash_String 1" by (rule ex_state_stale)
  have n: "ex_nameFor (BaseCommit ex_state) (WorktreeID ex_state)
       \<noteq> ex_nameFor (Hash_String 1) (WorktreeID ex_state)"
    using ex_names_differ [of 1] by (simp add: ex_nameFor_def ex_state_def)
  from h3 n show ?thesis by (simp add: migrate_defs ex_migrate_defs)
qed

section \<open>Properties of the concurrent-session gate\<close>

lemma Load_Save: "Load (Save store s) (SessionID s) = Some s"
  by (induction store) (auto simp: Load_def)

lemma find_None: "(find P xs = None) = (\<forall>x\<in>set xs. \<not> P x)"
  by (auto simp: find_None_iff)

text \<open>
  Claim C6. The first prompt submission of a new session is blocked (\<open>continue = false\<close>,
  with a non-empty reason, and \<open>ConcurrentWarningShown\<close> set on the new session's record)
  exactly when another live session of the same worktree has \<open>CheckpointCount > 0\<close>, so
  a concurrent session with zero checkpoints never blocks it; and once
  \<open>ConcurrentWarningShown\<close> is set on a session's record, a prompt of that session
  proceeds whatever the other records are, and keeps the record.
\<close>

theorem concurrency_gate:
  "(Load store sessionID = None \<longrightarrow>
      (\<not> continue (fst (SubmitPrompt store sessionID worktree baseCommit)))
        = (\<exists>s\<in>set store. SessionID s \<noteq> sessionID \<and> WorktreeID s = worktree \<and> CheckpointCount s > 0)
      \<and> (\<not> continue (fst (SubmitPrompt store sessionID worktree baseCommit)) \<longrightarrow>
            stopReason (fst (SubmitPrompt store sessionID worktree baseCommit)) \<noteq> [])
      \<and> (\<exists>s'. Load (snd (SubmitPrompt store sessionID worktree baseCommit)) sessionID = Some s'
            \<and> ConcurrentWarningShown s'
                = (\<not> continue (fst (SubmitPrompt store sessionID worktree baseCommit)))))
   \<and> (\<forall>s. Load store sessionID = Some s \<and> ConcurrentWarningShown s \<longrightarrow>
          continue (fst (SubmitPrompt store sessionID worktree baseCommit))
          \<and> Load (snd (SubmitPrompt store sessionID worktree baseCommit)) sessionID = Some s)"
proof -
  have new: "Load (Save store (newSessionState sessionID worktree baseCommit w)) sessionID
      = Some (newSessionState sessionID worktree baseCommit w)" for w
    using Load_Save [of store "newSessionState sessionID worktree baseCommit w"]
    by (simp add: newSessionState_def)
  have flag: "ConcurrentWarningShown (newSessionState sessionID worktree baseCommit w) = w" for w
    by (simp add: newSessionState_def)
  show ?thesis
  proof (cases "DetectConcurrentSession store sessionID worktree")
    case None
    then have no: "\<not> (\<exists>s\<in>set store. SessionID s \<noteq> sessionID \<and> WorktreeID s = worktree \<and> CheckpointCount s > 0)"
      by (simp add: DetectConcurrentSession_def find_None conflicts_def)
    with None new [of False] flag [of False] show ?thesis
      by (auto simp: SubmitPrompt_def split: option.splits)
  next
    case (Some other)
    then have "conflicts sessionID worktree other \<and> other \<in> set store"
      unfolding DetectConcurrentSession_def by (auto simp: find_Some_iff)
    then have yes: "\<exists>s\<in>set store. SessionID s \<noteq> sessionID \<and> WorktreeID s = worktree \<and> CheckpointCount s > 0"
      unfolding conflicts_def by blast
    with Some new [of True] flag [of True] show ?thesis
      by (auto simp: SubmitPrompt_def split: option.splits)
  qed
qed

theorem concurrency_gate_witness:
  "Load [ex_sessionA] ''B'' = None
   \<and> \<not> continue (fst (SubmitPrompt [ex_sessionA] ''B'' ''wt'' ''old''))
   \<and> Load (snd (SubmitPrompt [ex_sessionA] ''B'' ''wt'' ''old'')) ''B''
       = Some (newSessionState ''B'' ''wt'' ''old'' True)
   \<and> ConcurrentWarningShown (newSessionState ''B'' ''wt'' ''old'' True)
   \<and> continue (fst (SubmitPrompt (snd (SubmitPrompt [ex_sessionA] ''B'' ''wt'' ''old'')) ''B'' ''wt'' ''old''))
   \<and> continue (fst (SubmitPrompt [ex_sessionA\<lparr>CheckpointCount := 0\<rparr>] ''B'' ''wt'' ''old''))"
proof -
  have l: "Load [ex_sessionA] ''B'' = None" by (simp add: Load_def ex_sessionA_def)
  have l0: "Load [ex_sessionA\<lparr>CheckpointCount := 0\<rparr>] ''B'' = None"
    by (simp add: Load_def ex_sessionA_def)
  have s: "snd (SubmitPrompt [ex_sessionA] ''B'' ''wt'' ''old'')
      = [ex_sessionA, newSessionState ''B'' ''wt'' ''old'' True]"
    by (simp add: SubmitPrompt_def Load_def DetectConcurrentSession_def conflicts_def
          ex_sessionA_def newSessionState_def)
  have l2: "Load [ex_sessionA, newSessionState ''B'' ''wt'' ''old'' True] ''B''
      = Some (newSessionState ''B'' ''wt'' ''old'' True)"
    by (simp add: Load_def ex_sessionA_def newSessionState_def)
  have f: "ConcurrentWarningShown (newSessionState ''B'' ''wt'' ''old'' True)"
    by (simp add: newSessionState_def)
  from concurrency_gate [of "[ex_sessionA]" "''B''" "''wt''" "''old''"]
       concurrency_gate [of "[ex_sessionA, newSessionState ''B'' ''wt'' ''old'' True]" "''B''" "''wt''" "''old''"]
       concurrency_gate [of "[ex_sessionA\<lparr>CheckpointCount := 0\<rparr>]" "''B''" "''wt''" "''old''"]
       l l0 l2 f s
  show ?thesis by (simp add: ex_sessionA_def)
qed

section \<open>Properties of the checkpoint identity\<close>

lemma hexDigit_lower:
  assumes "n < 16"
  shows "isLowerHex (hexDigit n)"
proof -
  from assms have "n < length ''0123456789abcdef''" by simp
  then show ?thesis
    unfolding isLowerHex_def hexDigit_def by (rule nth_mem)
qed

lemma high_nibble: "unat (b :: 8 word) div 16 < 16"
proof -
  have "unat b < 256" using unsigned_less [of b] by simp
  then show ?thesis by simp
qed

lemma hexByte_lower: "list_all isLowerHex (hexByte b)"
  by (simp add: hexByte_def hexDigit_lower high_nibble)

lemma length_EncodeToString: "length (EncodeToString bs) = 2 * length bs"
  by (induction bs) (simp_all add: EncodeToString_def hexByte_def)

lemma EncodeToString_lower: "list_all isLowerHex (EncodeToString bs)"
  by (induction bs) (simp_all add: EncodeToString_def hexByte_lower)

text \<open>
  Claim C10. \<open>Generate\<close> succeeds whenever the random source delivers six bytes, and every
  identifier it generates is a 12-character lower-case hexadecimal string with
  \<open>Parse(id.String()) = id\<close>; \<open>Path\<close> of a string of length at least 3 is
  \<open>s[0:2] + "/" + s[2:]\<close> (two characters, a slash and the remaining ten for a
  12-character identifier), and \<open>Path\<close> of a shorter string is the string itself.
\<close>

theorem checkpoint_id_roundtrip:
  "(6 \<le> length entropy \<longrightarrow> (\<exists>c. Generate entropy = Inr c))
   \<and> (Generate entropy = Inr cid \<longrightarrow>
        length (String cid) = 12 \<and> list_all isLowerHex (String cid)
        \<and> Parse (String cid) = Inr cid)
   \<and> (3 \<le> length s \<longrightarrow> Path s = take 2 s @ ''/'' @ drop 2 s)
   \<and> (length s = 12 \<longrightarrow> length (take 2 s) = 2 \<and> length (drop 2 s) = 10)
   \<and> (length s < 3 \<longrightarrow> Path s = s)"
proof -
  have "length (String cid) = 12 \<and> list_all isLowerHex (String cid) \<and> Parse (String cid) = Inr cid"
    if g: "Generate entropy = Inr cid"
  proof -
    from g have len: "6 \<le> length entropy" and c: "cid = EncodeToString (take 6 entropy)"
      by (auto simp: Generate_def split: if_splits)
    from len have 1: "length cid = 12" by (simp add: c length_EncodeToString)
    have 2: "list_all isLowerHex cid" by (simp add: c EncodeToString_lower)
    from 1 2 show ?thesis by (simp add: String_def Parse_def)
  qed
  moreover have "6 \<le> length entropy \<longrightarrow> (\<exists>c. Generate entropy = Inr c)"
    by (simp add: Generate_def)
  ultimately show ?thesis by (simp add: Path_def)
qed

theorem checkpoint_id_roundtrip_witness:
  "Generate [0xa1, 0xb2, 0xc3, 0xd4, 0xe5, 0xf6] = Inr ''a1b2c3d4e5f6''
   \<and> Parse ''a1b2c3d4e5f6'' = Inr ''a1b2c3d4e5f6''
   \<and> Path ''a1b2c3d4e5f6'' = ''a1/b2c3d4e5f6''
   \<and> Path ''abc'' = ''ab/c''
   \<and> Path ''ab'' = ''ab'' \<and> Path ''a'' = ''a'' \<and> Path [] = []"
proof -
  have g: "Generate [0xa1, 0xb2, 0xc3, 0xd4, 0xe5, 0xf6] = Inr ''a1b2c3d4e5f6''"
    by (simp add: Generate_def EncodeToString_def hexByte_def hexDigit_def)
  from checkpoint_id_roundtrip [of "[0xa1, 0xb2, 0xc3, 0xd4, 0xe5, 0xf6]" "''a1b2c3d4e5f6''" "''a1b2c3d4e5f6''"]
       checkpoint_id_roundtrip [of "[]" "[]" "''abc''"]
       checkpoint_id_roundtrip [of "[]" "[]" "''ab''"]
       checkpoint_id_roundtrip [of "[]" "[]" "''a''"]
       checkpoint_id_roundtrip [of "[]" "[]" "[]"]
       g
  show ?thesis by (simp add: String_def)
qed

end
